theory Spec2Isabelle
  imports Complex_Main
begin

section \<open>Floating-point values of the simulation\<close>

text \<open>
  The program computes with numpy float64 values. A finite value is modelled as a real
  number, and the three special values (the two infinities and NaN) are kept as values, as
  numpy keeps them: the program runs with warnings switched off and never raises on them.
  The operations of this first part are the exact ones on these values. Overflow to an
  infinity is added below for the operations of the simulation. Rounding and the sign of
  zero are not modelled.
\<close>

datatype npfloat = Fin real | PInf | NInf | NaN

fun fneg :: "npfloat \<Rightarrow> npfloat" where
  "fneg (Fin a) = Fin (- a)"
| "fneg PInf = NInf"
| "fneg NInf = PInf"
| "fneg NaN = NaN"

fun fadd :: "npfloat \<Rightarrow> npfloat \<Rightarrow> npfloat" where
  "fadd (Fin a) (Fin b) = Fin (a + b)"
| "fadd NaN _ = NaN"
| "fadd _ NaN = NaN"
| "fadd PInf NInf = NaN"
| "fadd NInf PInf = NaN"
| "fadd PInf _ = PInf"
| "fadd NInf _ = NInf"
| "fadd _ PInf = PInf"
| "fadd _ NInf = NInf"

definition fsub :: "npfloat \<Rightarrow> npfloat \<Rightarrow> npfloat" where
  "fsub x y = fadd x (fneg y)"

text \<open>An infinity times a finite value: the sign of the finite value decides, zero gives NaN.\<close>

definition inf_times :: "npfloat \<Rightarrow> real \<Rightarrow> npfloat" where
  "inf_times x b = (if b = 0 then NaN else if 0 < b then x else fneg x)"

fun fmul :: "npfloat \<Rightarrow> npfloat \<Rightarrow> npfloat" where
  "fmul (Fin a) (Fin b) = Fin (a * b)"
| "fmul NaN _ = NaN"
| "fmul _ NaN = NaN"
| "fmul PInf (Fin b) = inf_times PInf b"
| "fmul NInf (Fin b) = inf_times NInf b"
| "fmul (Fin a) PInf = inf_times PInf a"
| "fmul (Fin a) NInf = inf_times NInf a"
| "fmul PInf PInf = PInf"
| "fmul NInf NInf = PInf"
| "fmul PInf NInf = NInf"
| "fmul NInf PInf = NInf"

text \<open>
  Division as numpy does it: a finite nonzero value divided by zero is an infinity of
  the sign of the numerator, zero divided by zero is NaN.
\<close>

fun fdiv :: "npfloat \<Rightarrow> npfloat \<Rightarrow> npfloat" where
  "fdiv (Fin a) (Fin b) =
     (if b \<noteq> 0 then Fin (a / b) else if a = 0 then NaN else if 0 < a then PInf else NInf)"
| "fdiv NaN _ = NaN"
| "fdiv _ NaN = NaN"
| "fdiv (Fin a) _ = Fin 0"
| "fdiv PInf (Fin b) = (if 0 \<le> b then PInf else NInf)"
| "fdiv NInf (Fin b) = (if 0 \<le> b then NInf else PInf)"
| "fdiv _ _ = NaN"

text \<open>Comparisons: every comparison with NaN is false.\<close>

fun flt :: "npfloat \<Rightarrow> npfloat \<Rightarrow> bool" where
  "flt (Fin a) (Fin b) = (a < b)"
| "flt NaN _ = False"
| "flt _ NaN = False"
| "flt _ NInf = False"
| "flt PInf _ = False"
| "flt _ _ = True"

fun fle :: "npfloat \<Rightarrow> npfloat \<Rightarrow> bool" where
  "fle (Fin a) (Fin b) = (a \<le> b)"
| "fle NaN _ = False"
| "fle _ NaN = False"
| "fle NInf _ = True"
| "fle _ PInf = True"
| "fle _ _ = False"

text \<open>
  \<open>x ** a\<close> for a float64 base and a finite exponent: a negative base with a
  fractional exponent gives NaN, zero to a negative power gives infinity.
\<close>

definition fpow :: "npfloat \<Rightarrow> real \<Rightarrow> npfloat" where
  "fpow x a =
     (if a = 0 then Fin 1
      else case x of
        NaN \<Rightarrow> NaN
      | Fin r \<Rightarrow>
          (if 0 < r then Fin (r powr a)
           else if r = 0 then (if 0 < a then Fin 0 else PInf)
           else if of_int \<lfloor>a\<rfloor> = a then Fin (r powi \<lfloor>a\<rfloor>)
           else NaN)
      | PInf \<Rightarrow> (if 0 < a then PInf else Fin 0)
      | NInf \<Rightarrow>
          (if 0 < a then (if of_int \<lfloor>a\<rfloor> = a \<and> odd \<lfloor>a\<rfloor> then NInf else PInf)
           else Fin 0))"

text \<open>
  Python's built-in \<open>min(a, b)\<close> and \<open>max(a, b)\<close> on two arguments keep the first
  argument unless the second compares strictly smaller (larger); a NaN second argument
  therefore never wins.
\<close>

definition py_min :: "npfloat \<Rightarrow> npfloat \<Rightarrow> npfloat" where
  "py_min a b = (if flt b a then b else a)"

definition py_max :: "npfloat \<Rightarrow> npfloat \<Rightarrow> npfloat" where
  "py_max a b = (if flt a b then b else a)"

text \<open>
  \<open>np.clip(x, lo, hi)\<close> is \<open>minimum(maximum(x, lo), hi)\<close> with finite bounds; NaN
  stays NaN.
\<close>

fun np_clip :: "npfloat \<Rightarrow> real \<Rightarrow> real \<Rightarrow> npfloat" where
  "np_clip (Fin a) lo hi = Fin (min (max a lo) hi)"
| "np_clip PInf lo hi = Fin hi"
| "np_clip NInf lo hi = Fin (min lo hi)"
| "np_clip NaN lo hi = NaN"

text \<open>\<open>np.mean\<close>: the sum of the samples divided by their number.\<close>

definition fsum :: "npfloat list \<Rightarrow> npfloat" where
  "fsum xs = foldl fadd (Fin 0) xs"

definition np_mean :: "npfloat list \<Rightarrow> npfloat" where
  "np_mean xs = fdiv (fsum xs) (Fin (real (length xs)))"

section \<open>Overflow\<close>

text \<open>
  A float64 operation whose exact result has a magnitude of \<open>2^1024 - 2^970\<close> or more
  gives an infinity of the sign of the result. The operations of the simulation are the exact
  operations followed by this step. The effective capacity and its mean (below) stay in
  exact arithmetic: they are \<open>capacity_As\<close>, a real number of the model, times a factor
  of at most 2.
\<close>

definition float64_overflow :: real where
  "float64_overflow = 2 ^ 1024 - 2 ^ 970"

fun ovf :: "npfloat \<Rightarrow> npfloat" where
  "ovf (Fin a) =
     (if float64_overflow \<le> a then PInf else if a \<le> - float64_overflow then NInf else Fin a)"
| "ovf x = x"

definition oadd :: "npfloat \<Rightarrow> npfloat \<Rightarrow> npfloat" where
  "oadd x y = ovf (fadd x y)"

definition osub :: "npfloat \<Rightarrow> npfloat \<Rightarrow> npfloat" where
  "osub x y = ovf (fsub x y)"

definition omul :: "npfloat \<Rightarrow> npfloat \<Rightarrow> npfloat" where
  "omul x y = ovf (fmul x y)"

definition odiv :: "npfloat \<Rightarrow> npfloat \<Rightarrow> npfloat" where
  "odiv x y = ovf (fdiv x y)"

text \<open>
  \<open>np.maximum\<close> and \<open>np.minimum\<close> hand a NaN of either argument on, and
  \<open>np.clip(x, lo, hi)\<close> with bounds that are floats themselves is
  \<open>minimum(maximum(x, lo), hi)\<close>.
\<close>

fun np_maximum :: "npfloat \<Rightarrow> npfloat \<Rightarrow> npfloat" where
  "np_maximum NaN _ = NaN"
| "np_maximum _ NaN = NaN"
| "np_maximum a b = (if flt a b then b else a)"

fun np_minimum :: "npfloat \<Rightarrow> npfloat \<Rightarrow> npfloat" where
  "np_minimum NaN _ = NaN"
| "np_minimum _ NaN = NaN"
| "np_minimum a b = (if flt b a then b else a)"

definition np_clip_between :: "npfloat \<Rightarrow> npfloat \<Rightarrow> npfloat \<Rightarrow> npfloat" where
  "np_clip_between x lo hi = np_minimum (np_maximum x lo) hi"

text \<open>
  \<open>np.sign\<close>, and \<open>np.sin\<close>. The float64 sine of a finite argument is the sine plus a
  rounding error; the error at each argument is a parameter \<open>sin_err\<close> of the model, of
  which nothing is assumed, so that nothing is claimed of the sign of the float64 sine next to
  a zero of the sine. At the argument zero the float64 sine is exactly zero. The sine of an
  infinity is NaN.
\<close>

fun np_sign :: "npfloat \<Rightarrow> npfloat" where
  "np_sign (Fin a) = Fin (sgn a)"
| "np_sign PInf = Fin 1"
| "np_sign NInf = Fin (- 1)"
| "np_sign NaN = NaN"

fun np_sin :: "(real \<Rightarrow> real) \<Rightarrow> npfloat \<Rightarrow> npfloat" where
  "np_sin sin_err (Fin y) = Fin (if y = 0 then 0 else sin y + sin_err y)"
| "np_sin sin_err _ = NaN"

text \<open>
  \<open>np.linspace(start, stop, num)\<close>: \<open>num\<close> evenly spaced samples
  \<open>arange(num) * step + start\<close>, the step being \<open>(stop - start) / (num - 1)\<close>. (numpy
  then stores \<open>stop\<close> itself as the last sample, which is the value the last sample has
  here already.)
\<close>

definition linspace :: "npfloat \<Rightarrow> npfloat \<Rightarrow> nat \<Rightarrow> npfloat list" where
  "linspace start stop num =
     map (\<lambda>i. oadd (omul (Fin (real i)) (odiv (osub stop start) (Fin (real (num - 1))))) start)
         [0..<num]"

text \<open>
  \<open>scipy.integrate.cumulative_trapezoid(y, x, initial=0)\<close>: the running sum of the
  trapezoid areas \<open>(x[j+1] - x[j]) * (y[j+1] + y[j]) / 2\<close>, with the value
  \<open>initial\<close> put in front.
\<close>

fun trapezoid_areas :: "npfloat list \<Rightarrow> npfloat list \<Rightarrow> npfloat list" where
  "trapezoid_areas (y0 # y1 # ys) (x0 # x1 # xs) =
     odiv (omul (osub x1 x0) (oadd y1 y0)) (Fin 2) # trapezoid_areas (y1 # ys) (x1 # xs)"
| "trapezoid_areas _ _ = []"

fun cumsum_from :: "npfloat \<Rightarrow> npfloat list \<Rightarrow> npfloat list" where
  "cumsum_from acc [] = []"
| "cumsum_from acc (x # xs) = oadd acc x # cumsum_from (oadd acc x) xs"

definition np_cumsum :: "npfloat list \<Rightarrow> npfloat list" where
  "np_cumsum xs = cumsum_from (Fin 0) xs"

definition cumulative_trapezoid :: "npfloat list \<Rightarrow> npfloat list \<Rightarrow> npfloat list" where
  "cumulative_trapezoid y x = Fin 0 # np_cumsum (trapezoid_areas y x)"

section \<open>The battery model\<close>

record Batterysimulator =
  capacity_Ah :: real
  initial_SOC :: real
  nominal_voltage :: real
  internal_resistance :: real
  peukert_exponent :: real
  capacity_As :: real

text \<open>The constructor \<open>__init__(capacity_Ah, initial_soc, nominal_voltage)\<close>.\<close>

definition init :: "real \<Rightarrow> real \<Rightarrow> real \<Rightarrow> Batterysimulator" where
  "init cap soc volt =
     \<lparr> capacity_Ah = cap, initial_SOC = soc, nominal_voltage = volt,
       internal_resistance = 0.05, peukert_exponent = 1.1,
       capacity_As = cap * 3600 \<rparr>"

definition peukert_capacity :: "Batterysimulator \<Rightarrow> npfloat \<Rightarrow> npfloat" where
  "peukert_capacity self current =
     (let I_ref = capacity_Ah self / 20 in
      if fle current (Fin 0) then Fin (capacity_As self)
      else
        let peukert_factor = fpow (fdiv (Fin I_ref) current) (peukert_exponent self - 1);
            peukert_factor = py_max (Fin 0.3) (py_min (Fin 2.0) peukert_factor)
        in fmul (Fin (capacity_As self)) peukert_factor)"

section \<open>The discharge simulation\<close>

datatype py_error = ValueError string

text \<open>The dictionary returned by \<open>discharge_simulation\<close>, one field for each key.\<close>

record SimulationResult =
  time_hours :: "npfloat list"
  time_seconds :: "npfloat list"
  current_A :: "npfloat list"
  SOC_percent :: "npfloat list"
  voltage_V :: "npfloat list"
  power_W :: "npfloat list"
  remaining_capacity_Ah :: "npfloat list"
  effective_capacity_As :: npfloat

text \<open>
  The current series chosen by the profile name. \<open>tsec\<close> is the horizon in seconds,
  \<open>t\<close> the time grid, \<open>randn\<close> the stream of standard normal draws that
  \<open>np.random.randn\<close> hands out, read from its first draw on, and \<open>sin_err\<close> the
  rounding error of the float64 sine.
\<close>

definition profile_current ::
  "string \<Rightarrow> npfloat \<Rightarrow> npfloat \<Rightarrow> npfloat list \<Rightarrow> (nat \<Rightarrow> real) \<Rightarrow> (real \<Rightarrow> real)
     \<Rightarrow> py_error + npfloat list" where
  "profile_current current_profile current_value tsec t randn sin_err =
     (if current_profile = ''constant'' then
        Inr (map (\<lambda>x. current_value) t)
      else if current_profile = ''pulsed'' then
        Inr (map (\<lambda>x. omul current_value
                         (oadd (Fin 0.5)
                            (omul (Fin 0.5)
                               (np_sign (np_sin sin_err
                                  (odiv (omul (Fin (2 * pi)) x) (Fin 3600))))))) t)
      else if current_profile = ''ramp'' then
        Inr (map (\<lambda>x. omul current_value
                         (oadd (Fin 0.5) (odiv (omul (Fin 0.5) x) tsec))) t)
      else if current_profile = ''random'' then
        Inr (map (\<lambda>i. np_clip_between
                         (omul current_value (oadd (Fin 0.7) (omul (Fin 0.6) (Fin (randn i)))))
                         (omul (Fin 0.1) current_value) (omul (Fin 2) current_value))
                 [0..<length t])
      else Inl (ValueError ''Invalid current profile.''))"

text \<open>
  The noise added when \<open>add_noise\<close> is set: the next \<open>len(t)\<close> draws of the stream,
  which are the second thousand when the random profile has used the first.
\<close>

definition noise_offset :: "string \<Rightarrow> nat \<Rightarrow> nat" where
  "noise_offset current_profile n = (if current_profile = ''random'' then n else 0)"

definition add_noise_to ::
  "npfloat list \<Rightarrow> npfloat \<Rightarrow> (nat \<Rightarrow> real) \<Rightarrow> nat \<Rightarrow> npfloat list" where
  "add_noise_to I current_value randn off =
     map (\<lambda>i. oadd (I ! i) (omul (omul (Fin 0.05) current_value) (Fin (randn (off + i)))))
         [0..<length I]"

text \<open>
  The method body from the integration on: the charge drawn so far, the mean effective
  capacity, the state of charge, the voltage, the remaining capacity and the power,
  packed into the dictionary that is returned. \<open>t\<close> is the time grid in seconds and
  \<open>I\<close> the current series.
\<close>

definition discharge_series ::
  "Batterysimulator \<Rightarrow> npfloat list \<Rightarrow> npfloat list \<Rightarrow> SimulationResult" where
  "discharge_series self t I =
     (let Q_discharged = cumulative_trapezoid I t;
          effective_capacities = map (peukert_capacity self) I;
          avg_effective_capacity = np_mean effective_capacities;
          SOC = map (\<lambda>q. osub (Fin (initial_SOC self))
                           (omul (odiv q avg_effective_capacity) (Fin 100)))
                    Q_discharged;
          SOC = map (\<lambda>s. np_clip s 0 100) SOC;
          OCV = map (\<lambda>s. omul (Fin (nominal_voltage self))
                           (oadd (Fin 0.8) (odiv (omul (Fin 0.2) s) (Fin 100)))) SOC;
          V_terminal = map (\<lambda>(v, i). osub v (omul i (Fin (internal_resistance self))))
                           (zip OCV I);
          remaining = map (\<lambda>s. odiv (omul (Fin (capacity_Ah self)) s) (Fin 100)) SOC;
          power = map (\<lambda>(v, i). omul v i) (zip V_terminal I)
      in \<lparr> time_hours = map (\<lambda>x. odiv x (Fin 3600)) t,
            time_seconds = t,
            current_A = I,
            SOC_percent = SOC,
            voltage_V = V_terminal,
            power_W = power,
            remaining_capacity_Ah = remaining,
            effective_capacity_As = avg_effective_capacity \<rparr>)"

text \<open>
  The method takes the object and returns it together with the outcome, so that what
  the call does to the object is part of the model. \<open>hours\<close> is the argument
  \<open>time_hours\<close>; it and \<open>current_value\<close> are floats, NaN and the infinities
  included.
\<close>

definition discharge_simulation ::
  "Batterysimulator \<Rightarrow> npfloat \<Rightarrow> string \<Rightarrow> npfloat \<Rightarrow> bool \<Rightarrow> (nat \<Rightarrow> real)
     \<Rightarrow> (real \<Rightarrow> real) \<Rightarrow> Batterysimulator \<times> (py_error + SimulationResult)" where
  "discharge_simulation self hours current_profile current_value add_noise randn sin_err =
     (let tsec = omul hours (Fin 3600);
          t = linspace (Fin 0) tsec 1000
      in case profile_current current_profile current_value tsec t randn sin_err of
           Inl e \<Rightarrow> (self, Inl e)
         | Inr I0 \<Rightarrow>
             let I = (if add_noise
                      then add_noise_to I0 current_value randn
                             (noise_offset current_profile (length t))
                      else I0)
             in (self, Inr (discharge_series self t I)))"

section \<open>Notions used to state the properties\<close>

text \<open>A sample is finite when it is an ordinary number, neither an infinity nor NaN.\<close>

fun is_fin :: "npfloat \<Rightarrow> bool" where
  "is_fin (Fin a) = True"
| "is_fin _ = False"

text \<open>A finite sample of magnitude at most \<open>K\<close>.\<close>

fun bounded_fin :: "real \<Rightarrow> npfloat \<Rightarrow> bool" where
  "bounded_fin K (Fin a) = (\<bar>a\<bar> \<le> K)"
| "bounded_fin K _ = False"

text \<open>A magnitude below which no float64 result overflows.\<close>

definition safe_magnitude :: real where
  "safe_magnitude = 10 ^ 300"

text \<open>
  The effective capacity as the specification words it: the nominal capacity for a
  current that is not positive, otherwise the nominal capacity times the Peukert factor
  \<open>(I_ref / I) ^ (peukert_exponent - 1)\<close> clamped to \<open>[0.3, 2.0]\<close>, on real numbers.
\<close>

definition clamp :: "real \<Rightarrow> real \<Rightarrow> real \<Rightarrow> real" where
  "clamp x lo hi = max lo (min hi x)"

definition peukert_reference :: "Batterysimulator \<Rightarrow> real \<Rightarrow> real" where
  "peukert_reference b I =
     (let I_ref = capacity_Ah b / 20 in
      if I \<le> 0 then capacity_As b
      else capacity_As b * clamp ((I_ref / I) powr (peukert_exponent b - 1)) 0.3 2.0)"

text \<open>
  The recomputation of the state of charge as the specification words it: the charge up to
  sample \<open>k\<close> is the sum of the first \<open>k\<close> trapezoid areas, and the state of
  charge is \<open>initial_soc - (Q / avg_effective_capacity) * 100\<close> clamped to
  \<open>[0, 100]\<close>, from the series and the scalar of a returned result.
\<close>

definition trapezoid_integral :: "npfloat list \<Rightarrow> npfloat list \<Rightarrow> nat \<Rightarrow> npfloat" where
  "trapezoid_integral y x k =
     foldl oadd (Fin 0)
       (map (\<lambda>j. odiv (omul (osub (x ! Suc j) (x ! j)) (oadd (y ! j) (y ! Suc j))) (Fin 2))
            [0..<k])"

definition recomputed_SOC :: "Batterysimulator \<Rightarrow> SimulationResult \<Rightarrow> npfloat list" where
  "recomputed_SOC self r =
     map (\<lambda>k. np_clip
                 (osub (Fin (initial_SOC self))
                    (omul (odiv (trapezoid_integral (current_A r) (time_seconds r) k)
                                (effective_capacity_As r))
                          (Fin 100)))
                 0 100)
         [0..<length (current_A r)]"

text \<open>
  A noise stream whose draws are all zero and a float64 sine without rounding error, for
  calls on concrete inputs.
\<close>

definition zero_draws :: "nat \<Rightarrow> real" where
  "zero_draws i = 0"

definition exact_sine :: "real \<Rightarrow> real" where
  "exact_sine y = 0"

section \<open>Properties\<close>

subsection \<open>The effective capacity is the nominal capacity times a factor in [0.3, 2]\<close>

lemma py_clamp_Fin:
  "\<exists>f. py_max (Fin 0.3) (py_min (Fin 2.0) p) = Fin f \<and> 0.3 \<le> f \<and> f \<le> 2"
proof (cases p)
  case (Fin x)
  show ?thesis
  proof (cases "x < 2")
    case True
    note x2 = this
    show ?thesis
    proof (cases "0.3 < x")
      case True
      with x2 Fin show ?thesis by (simp add: py_max_def py_min_def)
    next
      case False
      with x2 Fin have "py_max (Fin 0.3) (py_min (Fin 2.0) p) = Fin 0.3"
        by (simp add: py_max_def py_min_def)
      then show ?thesis by (intro exI[of _ "0.3"]) simp
    qed
  next
    case False
    with Fin show ?thesis by (simp add: py_max_def py_min_def)
  qed
next
  case PInf
  then show ?thesis by (simp add: py_max_def py_min_def)
next
  case NInf
  then have "py_max (Fin 0.3) (py_min (Fin 2.0) p) = Fin 0.3"
    by (simp add: py_max_def py_min_def)
  then show ?thesis by (intro exI[of _ "0.3"]) simp
next
  case NaN
  then show ?thesis by (simp add: py_max_def py_min_def)
qed

lemma peukert_capacity_form:
  "\<exists>f. peukert_capacity b c = Fin (capacity_As b * f) \<and> 0.3 \<le> f \<and> f \<le> 2"
proof (cases "fle c (Fin 0)")
  case True
  then have "peukert_capacity b c = Fin (capacity_As b * 1)"
    by (simp add: peukert_capacity_def)
  then show ?thesis by (intro exI[of _ 1]) simp
next
  case False
  obtain f where f: "py_max (Fin 0.3)
      (py_min (Fin 2.0) (fpow (fdiv (Fin (capacity_Ah b / 20)) c) (peukert_exponent b - 1))) = Fin f"
      "0.3 \<le> f" "f \<le> 2"
    using py_clamp_Fin by blast
  with False have "peukert_capacity b c = Fin (capacity_As b * f)"
    by (simp add: peukert_capacity_def Let_def)
  with f show ?thesis by blast
qed

lemma foldl_fadd_scaled:
  "\<forall>x\<in>set xs. \<exists>f. x = Fin (k * f) \<and> lo \<le> f \<and> f \<le> hi \<Longrightarrow>
   \<exists>g. foldl fadd (Fin (k * a)) xs = Fin (k * (a + g))
       \<and> lo * real (length xs) \<le> g \<and> g \<le> hi * real (length xs)"
proof (induction xs arbitrary: a)
  case Nil
  then show ?case by (intro exI[of _ 0]) simp
next
  case (Cons x xs)
  from Cons.prems obtain f where f: "x = Fin (k * f)" "lo \<le> f" "f \<le> hi" by auto
  from Cons.prems have "\<forall>x\<in>set xs. \<exists>f. x = Fin (k * f) \<and> lo \<le> f \<and> f \<le> hi" by simp
  from Cons.IH[OF this, of "a + f"] obtain g where
    g: "foldl fadd (Fin (k * (a + f))) xs = Fin (k * (a + f + g))"
       "lo * real (length xs) \<le> g" "g \<le> hi * real (length xs)" by blast
  have "foldl fadd (Fin (k * a)) (x # xs) = Fin (k * (a + (f + g)))"
    using f g by (simp add: algebra_simps)
  moreover have "lo * real (length (x # xs)) \<le> f + g" "f + g \<le> hi * real (length (x # xs))"
    using f g by (simp_all add: algebra_simps)
  ultimately show ?case by blast
qed

lemma np_mean_scaled:
  assumes "xs \<noteq> []" and "\<forall>x\<in>set xs. \<exists>f. x = Fin (k * f) \<and> lo \<le> f \<and> f \<le> hi"
  shows "\<exists>g. np_mean xs = Fin (k * g) \<and> lo \<le> g \<and> g \<le> hi"
proof -
  let ?n = "real (length xs)"
  have n: "0 < ?n" using assms(1) by simp
  from foldl_fadd_scaled[OF assms(2), of 0] obtain g where
    g: "foldl fadd (Fin 0) xs = Fin (k * g)" "lo * ?n \<le> g" "g \<le> hi * ?n" by auto
  have "np_mean xs = Fin (k * (g / ?n))"
    using g(1) n by (simp add: np_mean_def fsum_def)
  moreover have "lo \<le> g / ?n" using g(2) n by (simp add: pos_le_divide_eq)
  moreover have "g / ?n \<le> hi" using g(3) n by (simp add: pos_divide_le_eq)
  ultimately show ?thesis by blast
qed

lemma avg_effective_capacity_form:
  assumes "I \<noteq> []"
  shows "\<exists>g. np_mean (map (peukert_capacity b) I) = Fin (capacity_As b * g) \<and> 0.3 \<le> g \<and> g \<le> 2"
proof -
  have "\<forall>x\<in>set (map (peukert_capacity b) I). \<exists>f. x = Fin (capacity_As b * f) \<and> 0.3 \<le> f \<and> f \<le> 2"
    using peukert_capacity_form by auto
  from np_mean_scaled[OF _ this] assms show ?thesis by simp
qed

subsection \<open>The effective capacity on finite currents\<close>

lemma py_clamp_eq_clamp:
  "py_max (Fin 0.3) (py_min (Fin 2.0) (Fin x)) = Fin (clamp x 0.3 2.0)"
  by (simp add: py_max_def py_min_def clamp_def max_def min_def)

lemma fpow_pos: "0 < r \<Longrightarrow> fpow (Fin r) a = Fin (r powr a)"
  by (cases "a = 0") (simp_all add: fpow_def)

lemma peukert_capacity_refines:
  assumes "0 < capacity_Ah b"
  shows "peukert_capacity b (Fin I) = Fin (peukert_reference b I)"
proof (cases "I \<le> 0")
  case True
  then show ?thesis by (simp add: peukert_capacity_def peukert_reference_def)
next
  case False
  then have I: "0 < I" by simp
  with assms have base: "0 < capacity_Ah b / 20 / I" by simp
  have d: "fdiv (Fin (capacity_Ah b / 20)) (Fin I) = Fin (capacity_Ah b / 20 / I)"
    using I by simp
  have p: "fpow (Fin (capacity_Ah b / 20 / I)) (peukert_exponent b - 1)
           = Fin ((capacity_Ah b / 20 / I) powr (peukert_exponent b - 1))"
    using base by (rule fpow_pos)
  have "peukert_capacity b (Fin I)
        = fmul (Fin (capacity_As b))
            (py_max (Fin 0.3) (py_min (Fin 2.0)
               (Fin ((capacity_Ah b / 20 / I) powr (peukert_exponent b - 1)))))"
    using False base I by (simp add: peukert_capacity_def Let_def fpow_pos)
  also have "\<dots> = Fin (capacity_As b *
                   clamp ((capacity_Ah b / 20 / I) powr (peukert_exponent b - 1)) 0.3 2.0)"
    by (simp only: py_clamp_eq_clamp fmul.simps)
  finally show ?thesis using False by (simp add: peukert_reference_def)
qed

lemma peukert_capacity_bounds:
  assumes "0 \<le> capacity_As b"
  shows "\<exists>v. peukert_capacity b c = Fin v
             \<and> 0.3 * capacity_As b \<le> v \<and> v \<le> 2.0 * capacity_As b"
proof -
  from peukert_capacity_form[of b c] obtain f where
    f: "peukert_capacity b c = Fin (capacity_As b * f)" "0.3 \<le> f" "f \<le> 2" by blast
  have "0.3 * capacity_As b \<le> capacity_As b * f"
    using mult_left_mono[OF f(2) assms] by (simp add: mult.commute)
  moreover have "capacity_As b * f \<le> 2.0 * capacity_As b"
    using mult_left_mono[OF f(3) assms] by (simp add: mult.commute)
  ultimately show ?thesis using f(1) by blast
qed

lemma peukert_capacity_pos:
  assumes "0 < capacity_As b"
  shows "\<exists>v. peukert_capacity b c = Fin v \<and> 0 < v"
proof -
  from peukert_capacity_form[of b c] obtain f where
    f: "peukert_capacity b c = Fin (capacity_As b * f)" "0.3 \<le> f" "f \<le> 2" by blast
  from f(2) have "0 < f" by simp
  with assms have "0 < capacity_As b * f" by simp
  with f(1) show ?thesis by blast
qed

lemma avg_effective_capacity_pos:
  assumes "0 < capacity_As b" and "I \<noteq> []"
  shows "\<exists>a. np_mean (map (peukert_capacity b) I) = Fin a \<and> 0 < a"
proof -
  from avg_effective_capacity_form[OF assms(2), of b] obtain g where
    g: "np_mean (map (peukert_capacity b) I) = Fin (capacity_As b * g)" "0.3 \<le> g" by blast
  from g(2) have "0 < g" by simp
  with assms(1) have "0 < capacity_As b * g" by simp
  with g(1) show ?thesis by blast
qed

lemma avg_effective_capacity_nonzero:
  assumes "capacity_As b \<noteq> 0" and "I \<noteq> []"
  shows "\<exists>a. np_mean (map (peukert_capacity b) I) = Fin a \<and> a \<noteq> 0"
proof -
  from avg_effective_capacity_form[OF assms(2), of b] obtain g where
    g: "np_mean (map (peukert_capacity b) I) = Fin (capacity_As b * g)" "0.3 \<le> g" by blast
  from g(2) have "g \<noteq> 0" by auto
  with assms(1) have "capacity_As b * g \<noteq> 0" by simp
  with g(1) show ?thesis by blast
qed


subsection \<open>Lengths of the series\<close>

lemma length_linspace: "length (linspace a b n) = n"
  by (simp add: linspace_def)

lemma length_trapezoid_areas:
  "length (trapezoid_areas y x) = min (length y) (length x) - 1"
  by (induction y x rule: trapezoid_areas.induct) auto

lemma length_cumsum_from: "length (cumsum_from acc xs) = length xs"
  by (induction xs arbitrary: acc) auto

lemma length_cumulative_trapezoid:
  "length y = length x \<Longrightarrow> 0 < length x \<Longrightarrow> length (cumulative_trapezoid y x) = length x"
  by (simp add: cumulative_trapezoid_def np_cumsum_def length_cumsum_from length_trapezoid_areas)

lemma length_add_noise_to: "length (add_noise_to I cv randn off) = length I"
  by (simp add: add_noise_to_def)

subsection \<open>The current profiles\<close>

lemma profile_current_constant:
  "profile_current ''constant'' cv tsec t randn sin_err = Inr (map (\<lambda>x. cv) t)"
  by (simp add: profile_current_def)

lemma profile_current_pulsed:
  "profile_current ''pulsed'' cv tsec t randn sin_err =
     Inr (map (\<lambda>x. omul cv (oadd (Fin 0.5) (omul (Fin 0.5)
                  (np_sign (np_sin sin_err (odiv (omul (Fin (2 * pi)) x) (Fin 3600))))))) t)"
  by (simp add: profile_current_def)

lemma profile_current_ramp:
  "profile_current ''ramp'' cv tsec t randn sin_err =
     Inr (map (\<lambda>x. omul cv (oadd (Fin 0.5) (odiv (omul (Fin 0.5) x) tsec))) t)"
  by (simp add: profile_current_def)

lemma profile_current_random:
  "profile_current ''random'' cv tsec t randn sin_err =
     Inr (map (\<lambda>i. np_clip_between
                     (omul cv (oadd (Fin 0.7) (omul (Fin 0.6) (Fin (randn i)))))
                     (omul (Fin 0.1) cv) (omul (Fin 2) cv))
              [0..<length t])"
  by (simp add: profile_current_def)

lemma profile_current_invalid:
  "p \<notin> {''constant'', ''pulsed'', ''ramp'', ''random''} \<Longrightarrow>
   profile_current p cv tsec t randn sin_err = Inl (ValueError ''Invalid current profile.'')"
  by (simp add: profile_current_def)

lemma profile_current_cases:
  assumes "profile_current p cv tsec t randn sin_err = Inr I"
  shows "p \<in> {''constant'', ''pulsed'', ''ramp'', ''random''}"
proof (rule ccontr)
  assume "p \<notin> {''constant'', ''pulsed'', ''ramp'', ''random''}"
  from profile_current_invalid[OF this] assms show False by simp
qed

lemma length_profile_current:
  assumes "profile_current p cv tsec t randn sin_err = Inr I"
  shows "length I = length t"
proof -
  from profile_current_cases[OF assms]
  consider "p = ''constant''" | "p = ''pulsed''" | "p = ''ramp''" | "p = ''random''" by auto
  then show ?thesis
  proof cases
    case 1 with assms show ?thesis by (auto simp add: profile_current_constant)
  next
    case 2 with assms show ?thesis by (auto simp add: profile_current_pulsed)
  next
    case 3 with assms show ?thesis by (auto simp add: profile_current_ramp)
  next
    case 4 with assms show ?thesis by (auto simp add: profile_current_random)
  qed
qed

subsection \<open>The two outcomes of a call\<close>

lemma discharge_simulation_Inl:
  assumes "profile_current p cv (omul hours (Fin 3600))
             (linspace (Fin 0) (omul hours (Fin 3600)) 1000) randn sin_err = Inl e"
  shows "discharge_simulation self hours p cv noise randn sin_err = (self, Inl e)"
  using assms by (simp add: discharge_simulation_def Let_def)

lemma discharge_simulation_Inr_eq:
  assumes "profile_current p cv (omul hours (Fin 3600))
             (linspace (Fin 0) (omul hours (Fin 3600)) 1000) randn sin_err = Inr I0"
  shows "discharge_simulation self hours p cv noise randn sin_err =
         (self, Inr (discharge_series self (linspace (Fin 0) (omul hours (Fin 3600)) 1000)
                       (if noise then add_noise_to I0 cv randn (noise_offset p 1000) else I0)))"
  using assms by (simp add: discharge_simulation_def Let_def length_linspace)

lemma discharge_simulation_fst:
  "fst (discharge_simulation self hours p cv noise randn sin_err) = self"
  by (cases "profile_current p cv (omul hours (Fin 3600))
               (linspace (Fin 0) (omul hours (Fin 3600)) 1000) randn sin_err")
     (simp_all add: discharge_simulation_Inl discharge_simulation_Inr_eq)

lemma discharge_simulation_Inr:
  assumes "snd (discharge_simulation self hours p cv noise randn sin_err) = Inr r"
  obtains I0 where
    "profile_current p cv (omul hours (Fin 3600))
       (linspace (Fin 0) (omul hours (Fin 3600)) 1000) randn sin_err = Inr I0"
    "r = discharge_series self (linspace (Fin 0) (omul hours (Fin 3600)) 1000)
           (if noise then add_noise_to I0 cv randn (noise_offset p 1000) else I0)"
proof (cases "profile_current p cv (omul hours (Fin 3600))
               (linspace (Fin 0) (omul hours (Fin 3600)) 1000) randn sin_err")
  case (Inl e)
  from discharge_simulation_Inl[OF this] assms show ?thesis by simp
next
  case (Inr I0)
  from discharge_simulation_Inr_eq[OF this] assms that[OF Inr] show ?thesis by simp
qed

lemma current_A_discharge_series: "current_A (discharge_series self t I) = I"
  by (simp add: discharge_series_def Let_def)

lemma time_seconds_discharge_series: "time_seconds (discharge_series self t I) = t"
  by (simp add: discharge_series_def Let_def)

lemma effective_capacity_As_discharge_series:
  "effective_capacity_As (discharge_series self t I) = np_mean (map (peukert_capacity self) I)"
  by (simp add: discharge_series_def Let_def)

lemma SOC_percent_discharge_series:
  "SOC_percent (discharge_series self t I) =
     map (\<lambda>q. np_clip (osub (Fin (initial_SOC self))
                 (omul (odiv q (np_mean (map (peukert_capacity self) I))) (Fin 100))) 0 100)
         (cumulative_trapezoid I t)"
  by (simp add: discharge_series_def Let_def)

lemma lengths_discharge_series:
  assumes "length I = length t" and "0 < length t"
  shows "length (time_hours (discharge_series self t I)) = length t"
    and "length (time_seconds (discharge_series self t I)) = length t"
    and "length (current_A (discharge_series self t I)) = length t"
    and "length (SOC_percent (discharge_series self t I)) = length t"
    and "length (voltage_V (discharge_series self t I)) = length t"
    and "length (power_W (discharge_series self t I)) = length t"
    and "length (remaining_capacity_Ah (discharge_series self t I)) = length t"
  using assms by (simp_all add: discharge_series_def Let_def length_cumulative_trapezoid)

subsection \<open>The current series that is integrated\<close>

lemma length_simulated_current:
  assumes "profile_current p cv tsec t randn sin_err = Inr I0"
  shows "length (if noise then add_noise_to I0 cv randn off else I0) = length t"
  using length_profile_current[OF assms] by (simp add: length_add_noise_to)

lemma constant_call_result:
  "snd (discharge_simulation self hours ''constant'' cv False randn sin_err) =
     Inr (discharge_series self (linspace (Fin 0) (omul hours (Fin 3600)) 1000)
            (map (\<lambda>x. cv) (linspace (Fin 0) (omul hours (Fin 3600)) 1000)))"
  by (simp add: discharge_simulation_Inr_eq[OF profile_current_constant])

lemma constant_call_projr:
  "projr (snd (discharge_simulation self hours ''constant'' cv False randn sin_err)) =
     discharge_series self (linspace (Fin 0) (omul hours (Fin 3600)) 1000)
       (map (\<lambda>x. cv) (linspace (Fin 0) (omul hours (Fin 3600)) 1000))"
  by (simp add: constant_call_result)

lemma length_SOC_percent:
  assumes "snd (discharge_simulation self hours p cv noise randn sin_err) = Inr r"
  shows "length (SOC_percent r) = 1000"
proof -
  let ?t = "linspace (Fin 0) (omul hours (Fin 3600)) 1000"
  from discharge_simulation_Inr[OF assms] obtain I0 where
    I0: "profile_current p cv (omul hours (Fin 3600)) ?t randn sin_err = Inr I0" and
    r: "r = discharge_series self ?t
              (if noise then add_noise_to I0 cv randn (noise_offset p 1000) else I0)"
    by blast
  have len: "length (if noise then add_noise_to I0 cv randn (noise_offset p 1000) else I0)
             = length ?t"
    by (rule length_simulated_current[OF I0])
  have pos: "0 < length ?t" by (simp add: length_linspace)
  from lengths_discharge_series(4)[OF len pos] show ?thesis
    unfolding r by (simp add: length_linspace)
qed

subsection \<open>Operations that stay in range do not overflow\<close>

lemma float64_overflow_gt: "safe_magnitude < float64_overflow"
  unfolding float64_overflow_def safe_magnitude_def by simp

lemma safe_magnitude_pos: "0 < safe_magnitude"
  unfolding safe_magnitude_def by simp


lemma ovf_Fin:
  assumes "\<bar>a\<bar> \<le> safe_magnitude"
  shows "ovf (Fin a) = Fin a"
proof -
  from assms float64_overflow_gt have "a < float64_overflow" "- float64_overflow < a"
    by linarith+
  then show ?thesis by simp
qed

lemma bounded_fin_iff: "bounded_fin K x \<longleftrightarrow> (\<exists>a. x = Fin a \<and> \<bar>a\<bar> \<le> K)"
  by (cases x) simp_all

lemma bounded_fin_mono: "bounded_fin K x \<Longrightarrow> K \<le> K' \<Longrightarrow> bounded_fin K' x"
  by (cases x) simp_all

lemma bounded_fin_is_fin: "bounded_fin K x \<Longrightarrow> is_fin x"
  by (cases x) simp_all

lemma oadd_Fin: "\<bar>a + b\<bar> \<le> safe_magnitude \<Longrightarrow> oadd (Fin a) (Fin b) = Fin (a + b)"
  unfolding oadd_def fadd.simps by (rule ovf_Fin)

lemma osub_Fin: "\<bar>a - b\<bar> \<le> safe_magnitude \<Longrightarrow> osub (Fin a) (Fin b) = Fin (a - b)"
  unfolding osub_def fsub_def fneg.simps fadd.simps using ovf_Fin[of "a - b"] by simp

lemma omul_Fin: "\<bar>a * b\<bar> \<le> safe_magnitude \<Longrightarrow> omul (Fin a) (Fin b) = Fin (a * b)"
  unfolding omul_def fmul.simps by (rule ovf_Fin)

lemma odiv_Fin: "b \<noteq> 0 \<Longrightarrow> \<bar>a / b\<bar> \<le> safe_magnitude \<Longrightarrow> odiv (Fin a) (Fin b) = Fin (a / b)"
  unfolding odiv_def using ovf_Fin[of "a / b"] by simp

lemma oadd_bounded:
  assumes "bounded_fin K1 x" and "bounded_fin K2 y" and "K1 + K2 \<le> safe_magnitude"
  shows "bounded_fin (K1 + K2) (oadd x y)"
proof -
  from assms(1,2) obtain a b where ab: "x = Fin a" "\<bar>a\<bar> \<le> K1" "y = Fin b" "\<bar>b\<bar> \<le> K2"
    unfolding bounded_fin_iff by blast
  then have le: "\<bar>a + b\<bar> \<le> K1 + K2" by linarith
  with assms(3) have "oadd (Fin a) (Fin b) = Fin (a + b)" by (intro oadd_Fin) linarith
  with ab le show ?thesis by simp
qed

lemma osub_bounded:
  assumes "bounded_fin K1 x" and "bounded_fin K2 y" and "K1 + K2 \<le> safe_magnitude"
  shows "bounded_fin (K1 + K2) (osub x y)"
proof -
  from assms(1,2) obtain a b where ab: "x = Fin a" "\<bar>a\<bar> \<le> K1" "y = Fin b" "\<bar>b\<bar> \<le> K2"
    unfolding bounded_fin_iff by blast
  then have le: "\<bar>a - b\<bar> \<le> K1 + K2" by linarith
  with assms(3) have "osub (Fin a) (Fin b) = Fin (a - b)" by (intro osub_Fin) linarith
  with ab le show ?thesis by simp
qed

lemma omul_bounded:
  assumes "bounded_fin K1 x" and "bounded_fin K2 y" and "K1 * K2 \<le> safe_magnitude"
  shows "bounded_fin (K1 * K2) (omul x y)"
proof -
  from assms(1,2) obtain a b where ab: "x = Fin a" "\<bar>a\<bar> \<le> K1" "y = Fin b" "\<bar>b\<bar> \<le> K2"
    unfolding bounded_fin_iff by blast
  have "\<bar>a * b\<bar> = \<bar>a\<bar> * \<bar>b\<bar>" by (rule abs_mult)
  also have "\<dots> \<le> K1 * K2" using ab(2,4) by (intro mult_mono) simp_all
  finally have le: "\<bar>a * b\<bar> \<le> K1 * K2" .
  with assms(3) have "omul (Fin a) (Fin b) = Fin (a * b)" by (intro omul_Fin) linarith
  with ab le show ?thesis by simp
qed

lemma odiv_bounded:
  assumes "bounded_fin K x" and "1 \<le> c" and "K \<le> safe_magnitude"
  shows "bounded_fin K (odiv x (Fin c))"
proof -
  from assms(1) obtain a where a: "x = Fin a" "\<bar>a\<bar> \<le> K"
    unfolding bounded_fin_iff by blast
  have "\<bar>a / c\<bar> = \<bar>a\<bar> / c" using assms(2) by simp
  also have "\<dots> \<le> \<bar>a\<bar>" using assms(2) by (simp add: divide_le_eq mult_le_cancel_left1)
  finally have le: "\<bar>a / c\<bar> \<le> K" using a(2) by linarith
  with assms(2,3) have "odiv (Fin a) (Fin c) = Fin (a / c)" by (intro odiv_Fin) linarith+
  with a le show ?thesis by simp
qed

subsection \<open>The time grid of a horizon that does not overflow\<close>

lemma small_le_safe: "\<bar>a\<bar> \<le> 10 ^ 100 \<Longrightarrow> \<bar>a\<bar> \<le> safe_magnitude"
  unfolding safe_magnitude_def by (rule order_trans[where y = "10 ^ 100"]) simp_all

lemma horizon_seconds:
  assumes "\<bar>h\<bar> \<le> 10 ^ 90"
  shows "omul (Fin h) (Fin 3600) = Fin (h * 3600)" and "\<bar>h * 3600\<bar> \<le> 10 ^ 94"
proof -
  have "\<bar>h * 3600\<bar> = \<bar>h\<bar> * 3600" by (simp add: abs_mult)
  also have "\<dots> \<le> 10 ^ 90 * 3600" using assms by simp
  also have "\<dots> \<le> (10::real) ^ 94" by simp
  finally show b: "\<bar>h * 3600\<bar> \<le> 10 ^ 94" .
  have "\<bar>h * 3600\<bar> \<le> 10 ^ 100"
    by (rule order_trans[OF b]) simp
  then show "omul (Fin h) (Fin 3600) = Fin (h * 3600)"
    by (intro omul_Fin small_le_safe)
qed

lemma linspace_sample:
  assumes "\<bar>T\<bar> \<le> 10 ^ 94" and "i < 1000"
  shows "oadd (omul (Fin (real i)) (odiv (osub (Fin T) (Fin 0)) (Fin 999))) (Fin 0)
         = Fin (real i * (T / 999))"
    and "\<bar>real i * (T / 999)\<bar> \<le> \<bar>T\<bar>"
proof -
  have T100: "\<bar>T\<bar> \<le> 10 ^ 100" by (rule order_trans[OF assms(1)]) simp
  have "\<bar>T - 0\<bar> \<le> safe_magnitude" using small_le_safe[OF T100] by simp
  from osub_Fin[OF this] have s: "osub (Fin T) (Fin 0) = Fin T" by simp
  have "\<bar>T / 999\<bar> \<le> \<bar>T\<bar>" by simp
  then have "\<bar>T / 999\<bar> \<le> 10 ^ 100" using T100 by linarith
  then have "\<bar>T / 999\<bar> \<le> safe_magnitude" by (rule small_le_safe)
  then have d: "odiv (Fin T) (Fin 999) = Fin (T / 999)"
    by (intro odiv_Fin) simp_all
  have "\<bar>real i * (T / 999)\<bar> = real i * \<bar>T\<bar> / 999" by (simp add: abs_mult)
  also have "\<dots> \<le> 999 * \<bar>T\<bar> / 999"
    using assms(2) by (intro divide_right_mono mult_right_mono) simp_all
  finally show b: "\<bar>real i * (T / 999)\<bar> \<le> \<bar>T\<bar>" by simp
  then have "\<bar>real i * (T / 999)\<bar> \<le> 10 ^ 100" using T100 by linarith
  then have sm: "\<bar>real i * (T / 999)\<bar> \<le> safe_magnitude" by (rule small_le_safe)
  then have m: "omul (Fin (real i)) (Fin (T / 999)) = Fin (real i * (T / 999))"
    by (rule omul_Fin)
  from sm have "\<bar>real i * (T / 999) + 0\<bar> \<le> safe_magnitude" by simp
  from oadd_Fin[OF this]
  have a: "oadd (Fin (real i * (T / 999))) (Fin 0) = Fin (real i * (T / 999))" by simp
  show "oadd (omul (Fin (real i)) (odiv (osub (Fin T) (Fin 0)) (Fin 999))) (Fin 0)
        = Fin (real i * (T / 999))"
    unfolding s d m a ..
qed

lemma linspace_Fin:
  assumes "\<bar>T\<bar> \<le> 10 ^ 94"
  shows "linspace (Fin 0) (Fin T) 1000 = map (\<lambda>i. Fin (real i * (T / 999))) [0..<1000]"
proof -
  have n: "real (1000 - 1) = 999" by simp
  show ?thesis
    unfolding linspace_def n
  proof (rule map_cong[OF refl])
    fix x :: nat assume "x \<in> set [0..<1000]"
    then have "x < 1000" by simp
    then show "oadd (omul (Fin (real x)) (odiv (osub (Fin T) (Fin 0)) (Fin 999))) (Fin 0)
               = Fin (real x * (T / 999))"
      by (rule linspace_sample(1)[OF assms])
  qed
qed

lemma linspace_bounded:
  assumes "\<bar>T\<bar> \<le> 10 ^ 94"
  shows "\<forall>x\<in>set (linspace (Fin 0) (Fin T) 1000). bounded_fin \<bar>T\<bar> x"
proof
  fix x assume "x \<in> set (linspace (Fin 0) (Fin T) 1000)"
  then obtain i where i: "i < 1000" "x = Fin (real i * (T / 999))"
    unfolding linspace_Fin[OF assms] by auto
  from linspace_sample(2)[OF assms i(1)] i(2) show "bounded_fin \<bar>T\<bar> x" by simp
qed

subsection \<open>The current series of moderate inputs is finite\<close>

lemma bounded_fin_Fin: "\<bar>a\<bar> \<le> K \<Longrightarrow> bounded_fin K (Fin a)"
  by simp

lemma np_sign_sin_bounded:
  assumes "is_fin y"
  shows "bounded_fin 1 (np_sign (np_sin sin_err y))"
proof -
  from assms obtain a where "y = Fin a" by (cases y) simp_all
  then show ?thesis by (simp add: sgn_real_def)
qed

lemma np_maximum_Fin: "np_maximum (Fin a) (Fin b) = Fin (max a b)"
  by (auto simp: max_def)

lemma np_minimum_Fin: "np_minimum (Fin a) (Fin b) = Fin (min a b)"
  by (auto simp: min_def)

lemma np_clip_between_bounded:
  assumes "bounded_fin K x" and "bounded_fin K lo" and "bounded_fin K hi"
  shows "bounded_fin K (np_clip_between x lo hi)"
proof -
  from assms obtain a l h where
    v: "x = Fin a" "lo = Fin l" "hi = Fin h" and b: "\<bar>a\<bar> \<le> K" "\<bar>l\<bar> \<le> K" "\<bar>h\<bar> \<le> K"
    unfolding bounded_fin_iff by blast
  have "\<bar>min (max a l) h\<bar> \<le> K" using b by (simp add: min_def max_def)
  then show ?thesis unfolding np_clip_between_def v np_maximum_Fin np_minimum_Fin by simp
qed

text \<open>The factor by which each profile multiplies \<open>current_value\<close>.\<close>

lemma pulsed_factor_bounded:
  assumes "bounded_fin (10 ^ 94) x"
  shows "bounded_fin 1 (oadd (Fin 0.5) (omul (Fin 0.5)
           (np_sign (np_sin sin_err (odiv (omul (Fin (2 * pi)) x) (Fin 3600))))))"
proof -
  have "\<bar>2 * pi\<bar> \<le> 8" using pi_less_4 pi_gt_zero by simp
  then have "bounded_fin 8 (Fin (2 * pi))" by simp
  from omul_bounded[OF this assms]
  have "bounded_fin (8 * 10 ^ 94) (omul (Fin (2 * pi)) x)"
    by (simp add: safe_magnitude_def)
  then have "bounded_fin (8 * 10 ^ 94) (odiv (omul (Fin (2 * pi)) x) (Fin 3600))"
    by (rule odiv_bounded) (simp_all add: safe_magnitude_def)
  then have "is_fin (odiv (omul (Fin (2 * pi)) x) (Fin 3600))"
    by (rule bounded_fin_is_fin)
  then have s: "bounded_fin 1
      (np_sign (np_sin sin_err (odiv (omul (Fin (2 * pi)) x) (Fin 3600))))"
    by (rule np_sign_sin_bounded)
  have half: "bounded_fin 0.5 (Fin 0.5)" by simp
  have h: "bounded_fin (0.5 * 1) (omul (Fin 0.5)
      (np_sign (np_sin sin_err (odiv (omul (Fin (2 * pi)) x) (Fin 3600)))))"
    by (rule omul_bounded[OF half s]) (simp add: safe_magnitude_def)
  have "bounded_fin (0.5 + 0.5 * 1) (oadd (Fin 0.5) (omul (Fin 0.5)
      (np_sign (np_sin sin_err (odiv (omul (Fin (2 * pi)) x) (Fin 3600))))))"
    by (rule oadd_bounded[OF half h]) (simp add: safe_magnitude_def)
  then show ?thesis by simp
qed

lemma ramp_factor_bounded:
  assumes "T \<noteq> 0" and "\<bar>T\<bar> \<le> 10 ^ 94" and "bounded_fin \<bar>T\<bar> x"
  shows "bounded_fin 1 (oadd (Fin 0.5) (odiv (omul (Fin 0.5) x) (Fin T)))"
proof -
  from assms(3) obtain a where a: "x = Fin a" "\<bar>a\<bar> \<le> \<bar>T\<bar>"
    unfolding bounded_fin_iff by blast
  have "\<bar>0.5 * a\<bar> \<le> 10 ^ 100" using a(2) assms(2) by simp
  then have m: "omul (Fin 0.5) (Fin a) = Fin (0.5 * a)"
    by (intro omul_Fin small_le_safe)
  have "\<bar>0.5 * a / T\<bar> = 0.5 * (\<bar>a\<bar> / \<bar>T\<bar>)" by (simp add: abs_mult)
  also have "\<bar>a\<bar> / \<bar>T\<bar> \<le> 1" using a(2) assms(1) by simp
  finally have q: "\<bar>0.5 * a / T\<bar> \<le> 0.5" by simp
  then have "\<bar>0.5 * a / T\<bar> \<le> safe_magnitude"
    using safe_magnitude_def by simp
  with assms(1) have d: "odiv (Fin (0.5 * a)) (Fin T) = Fin (0.5 * a / T)"
    by (intro odiv_Fin)
  have half: "bounded_fin 0.5 (Fin 0.5)" by simp
  from q have r: "bounded_fin 0.5 (Fin (0.5 * a / T))" by simp
  have "bounded_fin (0.5 + 0.5) (oadd (Fin 0.5) (Fin (0.5 * a / T)))"
    by (rule oadd_bounded[OF half r]) (simp add: safe_magnitude_def)
  then show ?thesis unfolding a(1) m d by simp
qed

lemma random_factor_bounded:
  assumes "\<bar>z\<bar> \<le> 10 ^ 90"
  shows "bounded_fin (10 ^ 90) (oadd (Fin 0.7) (omul (Fin 0.6) (Fin z)))"
proof -
  have k: "bounded_fin 0.6 (Fin 0.6)" and l: "bounded_fin 0.7 (Fin 0.7)" by simp_all
  from assms have z: "bounded_fin (10 ^ 90) (Fin z)" by simp
  have a: "bounded_fin (0.6 * 10 ^ 90) (omul (Fin 0.6) (Fin z))"
    by (rule omul_bounded[OF k z]) (simp add: safe_magnitude_def)
  have "bounded_fin (0.7 + 0.6 * 10 ^ 90) (oadd (Fin 0.7) (omul (Fin 0.6) (Fin z)))"
    by (rule oadd_bounded[OF l a]) (simp add: safe_magnitude_def)
  then show ?thesis by (rule bounded_fin_mono) simp
qed

lemma scaled_factor_bounded:
  assumes "\<bar>c\<bar> \<le> 10 ^ 90" and "bounded_fin (10 ^ 90) w"
  shows "bounded_fin (10 ^ 180) (omul (Fin c) w)"
proof -
  from assms(1) have c: "bounded_fin (10 ^ 90) (Fin c)" by simp
  have "bounded_fin (10 ^ 90 * 10 ^ 90) (omul (Fin c) w)"
    by (rule omul_bounded[OF c assms(2)]) (simp add: safe_magnitude_def)
  then show ?thesis by (rule bounded_fin_mono) simp
qed

lemma factor_1_le:
  assumes "bounded_fin 1 w"
  shows "bounded_fin (10 ^ 90) w"
  using assms by (rule bounded_fin_mono) simp

lemma random_sample_bounded:
  assumes "\<bar>c\<bar> \<le> 10 ^ 90" and "\<bar>z\<bar> \<le> 10 ^ 90"
  shows "bounded_fin (10 ^ 180)
           (np_clip_between (omul (Fin c) (oadd (Fin 0.7) (omul (Fin 0.6) (Fin z))))
              (omul (Fin 0.1) (Fin c)) (omul (Fin 2) (Fin c)))"
proof -
  have v: "bounded_fin (10 ^ 180) (omul (Fin c) (oadd (Fin 0.7) (omul (Fin 0.6) (Fin z))))"
    by (rule scaled_factor_bounded[OF assms(1) random_factor_bounded[OF assms(2)]])
  from assms(1) have c: "bounded_fin (10 ^ 90) (Fin c)" by simp
  have k: "bounded_fin 0.1 (Fin 0.1)" and l: "bounded_fin 2 (Fin 2)" by simp_all
  have "bounded_fin (0.1 * 10 ^ 90) (omul (Fin 0.1) (Fin c))"
    by (rule omul_bounded[OF k c]) (simp add: safe_magnitude_def)
  then have lo: "bounded_fin (10 ^ 180) (omul (Fin 0.1) (Fin c))"
    by (rule bounded_fin_mono) simp
  have "bounded_fin (2 * 10 ^ 90) (omul (Fin 2) (Fin c))"
    by (rule omul_bounded[OF l c]) (simp add: safe_magnitude_def)
  then have hi: "bounded_fin (10 ^ 180) (omul (Fin 2) (Fin c))"
    by (rule bounded_fin_mono) simp
  from v lo hi show ?thesis by (rule np_clip_between_bounded)
qed

lemma profile_current_bounded:
  assumes I: "profile_current p (Fin c) (Fin T) t randn sin_err = Inr I"
    and c: "\<bar>c\<bar> \<le> 10 ^ 90" and z: "\<forall>i. \<bar>randn i\<bar> \<le> 10 ^ 90"
    and T: "T \<noteq> 0" "\<bar>T\<bar> \<le> 10 ^ 94" and t: "\<forall>x\<in>set t. bounded_fin \<bar>T\<bar> x"
  shows "\<forall>y\<in>set I. bounded_fin (10 ^ 180) y"
proof -
  have t94: "\<forall>x\<in>set t. bounded_fin (10 ^ 94) x"
    using t T(2) bounded_fin_mono by blast
  have up: "bounded_fin (10 ^ 180) y" if "bounded_fin (10 ^ 90) y" for y
    using that by (rule bounded_fin_mono) simp
  have pulsed: "bounded_fin (10 ^ 180) (omul (Fin c) (oadd (Fin 0.5) (omul (Fin 0.5)
      (np_sign (np_sin sin_err (odiv (omul (Fin (2 * pi)) x) (Fin 3600)))))))"
    if "bounded_fin (10 ^ 94) x" for x
    by (rule scaled_factor_bounded[OF c factor_1_le[OF pulsed_factor_bounded[OF that]]])
  have ramp: "bounded_fin (10 ^ 180)
      (omul (Fin c) (oadd (Fin 0.5) (odiv (omul (Fin 0.5) x) (Fin T))))"
    if "bounded_fin \<bar>T\<bar> x" for x
    by (rule scaled_factor_bounded[OF c factor_1_le[OF ramp_factor_bounded[OF T that]]])
  from profile_current_cases[OF I]
  consider "p = ''constant''" | "p = ''pulsed''" | "p = ''ramp''" | "p = ''random''" by auto
  then show ?thesis
  proof cases
    case 1
    with I have "I = map (\<lambda>x. Fin c) t" by (simp add: profile_current_constant)
    with c up show ?thesis by auto
  next
    case 2
    with I have "I = map (\<lambda>x. omul (Fin c) (oadd (Fin 0.5) (omul (Fin 0.5)
                  (np_sign (np_sin sin_err (odiv (omul (Fin (2 * pi)) x) (Fin 3600))))))) t"
      by (simp add: profile_current_pulsed)
    with t94 pulsed show ?thesis by auto
  next
    case 3
    with I have "I = map (\<lambda>x. omul (Fin c) (oadd (Fin 0.5) (odiv (omul (Fin 0.5) x) (Fin T)))) t"
      by (simp add: profile_current_ramp)
    with t ramp show ?thesis by auto
  next
    case 4
    with I have "I = map (\<lambda>i. np_clip_between
                     (omul (Fin c) (oadd (Fin 0.7) (omul (Fin 0.6) (Fin (randn i)))))
                     (omul (Fin 0.1) (Fin c)) (omul (Fin 2) (Fin c))) [0..<length t]"
      by (simp add: profile_current_random)
    with z random_sample_bounded[OF c] show ?thesis by auto
  qed
qed

lemma add_noise_to_bounded:
  assumes "\<forall>y\<in>set I. bounded_fin (10 ^ 180) y"
    and c: "\<bar>c\<bar> \<le> 10 ^ 90" and z: "\<forall>i. \<bar>randn i\<bar> \<le> 10 ^ 90"
  shows "\<forall>y\<in>set (add_noise_to I (Fin c) randn off). bounded_fin (10 ^ 181) y"
proof -
  have one: "bounded_fin (10 ^ 181)
               (oadd (I ! i) (omul (omul (Fin 0.05) (Fin c)) (Fin (randn (off + i)))))"
    if "i < length I" for i
  proof -
    from assms(1) that have y: "bounded_fin (10 ^ 180) (I ! i)" by simp
    have a: "bounded_fin (0.05 * 10 ^ 90) (omul (Fin 0.05) (Fin c))"
      using c by (intro omul_bounded bounded_fin_Fin) (simp_all add: safe_magnitude_def)
    have zi: "\<bar>randn (off + i)\<bar> \<le> 10 ^ 90" using z by simp
    have b: "bounded_fin (0.05 * 10 ^ 90 * 10 ^ 90)
               (omul (omul (Fin 0.05) (Fin c)) (Fin (randn (off + i))))"
      by (rule omul_bounded[OF a bounded_fin_Fin[OF zi]]) (simp add: safe_magnitude_def)
    have "bounded_fin (10 ^ 180 + 0.05 * 10 ^ 90 * 10 ^ 90)
            (oadd (I ! i) (omul (omul (Fin 0.05) (Fin c)) (Fin (randn (off + i)))))"
      by (rule oadd_bounded[OF y b]) (simp add: safe_magnitude_def)
    then show ?thesis by (rule bounded_fin_mono) simp
  qed
  then show ?thesis by (auto simp: add_noise_to_def)
qed

subsection \<open>The discharged charge stays finite\<close>

lemma trapezoid_area_bounded:
  assumes "bounded_fin (10 ^ 94) x0" and "bounded_fin (10 ^ 94) x1"
    and "bounded_fin (10 ^ 181) y0" and "bounded_fin (10 ^ 181) y1"
  shows "bounded_fin (10 ^ 276) (odiv (omul (osub x1 x0) (oadd y1 y0)) (Fin 2))"
proof -
  have d: "bounded_fin (10 ^ 94 + 10 ^ 94) (osub x1 x0)"
    by (rule osub_bounded[OF assms(2,1)]) (simp add: safe_magnitude_def)
  have s: "bounded_fin (10 ^ 181 + 10 ^ 181) (oadd y1 y0)"
    by (rule oadd_bounded[OF assms(4,3)]) (simp add: safe_magnitude_def)
  have "bounded_fin ((10 ^ 94 + 10 ^ 94) * (10 ^ 181 + 10 ^ 181)) (omul (osub x1 x0) (oadd y1 y0))"
    by (rule omul_bounded[OF d s]) (simp add: safe_magnitude_def)
  then have "bounded_fin (10 ^ 276) (omul (osub x1 x0) (oadd y1 y0))"
    by (rule bounded_fin_mono) simp
  then show ?thesis
    by (rule odiv_bounded) (simp_all add: safe_magnitude_def)
qed

lemma trapezoid_areas_bounded:
  "\<forall>x\<in>set t. bounded_fin (10 ^ 94) x \<Longrightarrow> \<forall>y\<in>set I. bounded_fin (10 ^ 181) y \<Longrightarrow>
   \<forall>a\<in>set (trapezoid_areas I t). bounded_fin (10 ^ 276) a"
proof (induction I t rule: trapezoid_areas.induct)
  case (1 y0 y1 ys x0 x1 xs)
  have "bounded_fin (10 ^ 276) (odiv (omul (osub x1 x0) (oadd y1 y0)) (Fin 2))"
    using 1(2,3) by (intro trapezoid_area_bounded) simp_all
  moreover have "\<forall>a\<in>set (trapezoid_areas (y1 # ys) (x1 # xs)). bounded_fin (10 ^ 276) a"
    using 1(2,3) by (intro 1(1)) simp_all
  ultimately show ?case by simp
qed simp_all

lemma cumsum_from_bounded:
  "bounded_fin K acc \<Longrightarrow> \<forall>x\<in>set xs. bounded_fin A x \<Longrightarrow> 0 \<le> A \<Longrightarrow>
   K + real (length xs) * A \<le> safe_magnitude \<Longrightarrow>
   \<forall>v\<in>set (cumsum_from acc xs). bounded_fin (K + real (length xs) * A) v"
proof (induction xs arbitrary: acc K)
  case Nil
  then show ?case by simp
next
  case (Cons x xs)
  have n: "0 \<le> real (length xs) * A" using Cons.prems(3) by simp
  have le: "K + A \<le> safe_magnitude"
    using Cons.prems(4) n by (simp add: algebra_simps)
  have x: "bounded_fin A x" using Cons.prems(2) by simp
  have hd: "bounded_fin (K + A) (oadd acc x)"
    by (rule oadd_bounded[OF Cons.prems(1) x le])
  have eq: "K + A + real (length xs) * A = K + real (length (x # xs)) * A"
    by (simp add: algebra_simps)
  have "\<forall>v\<in>set (cumsum_from (oadd acc x) xs). bounded_fin (K + A + real (length xs) * A) v"
    using Cons.prems(2,3,4) by (intro Cons.IH[OF hd]) (simp_all add: algebra_simps)
  then have tl: "\<forall>v\<in>set (cumsum_from (oadd acc x) xs).
                  bounded_fin (K + real (length (x # xs)) * A) v"
    unfolding eq .
  have "bounded_fin (K + real (length (x # xs)) * A) (oadd acc x)"
    using hd by (rule bounded_fin_mono) (use n in \<open>simp add: algebra_simps\<close>)
  with tl show ?case by simp
qed

lemma cumulative_trapezoid_finite:
  assumes t: "\<forall>x\<in>set t. bounded_fin (10 ^ 94) x"
    and I: "\<forall>y\<in>set I. bounded_fin (10 ^ 181) y"
    and len: "length t = 1000" "length I = 1000"
  shows "\<forall>q\<in>set (cumulative_trapezoid I t). is_fin q"
proof -
  have n: "length (trapezoid_areas I t) = 999"
    using len by (simp add: length_trapezoid_areas)
  have z: "bounded_fin 0 (Fin 0)" by simp
  have "\<forall>v\<in>set (cumsum_from (Fin 0) (trapezoid_areas I t)).
          bounded_fin (0 + real (length (trapezoid_areas I t)) * 10 ^ 276) v"
    by (rule cumsum_from_bounded[OF z trapezoid_areas_bounded[OF t I]])
       (simp_all add: n safe_magnitude_def)
  then have "\<forall>v\<in>set (cumsum_from (Fin 0) (trapezoid_areas I t)). is_fin v"
    using bounded_fin_is_fin by blast
  then show ?thesis by (simp add: cumulative_trapezoid_def np_cumsum_def)
qed

subsection \<open>A state-of-charge sample computed from a finite charge\<close>

lemma ovf_not_NaN: "x \<noteq> NaN \<Longrightarrow> ovf x \<noteq> NaN"
  by (cases x) simp_all

lemma np_clip_range:
  assumes "x \<noteq> NaN"
  shows "\<exists>v. np_clip x 0 100 = Fin v \<and> 0 \<le> v \<and> v \<le> 100"
  using assms by (cases x) simp_all

lemma soc_sample_not_NaN:
  assumes "is_fin q" and "a \<noteq> 0"
  shows "osub (Fin s0) (omul (odiv q (Fin a)) (Fin 100)) \<noteq> NaN"
proof -
  from assms(1) obtain b where q: "q = Fin b" by (cases q) simp_all
  have d: "odiv q (Fin a) \<noteq> NaN"
    unfolding odiv_def q using assms(2) by (intro ovf_not_NaN) simp
  have m: "omul (odiv q (Fin a)) (Fin 100) \<noteq> NaN"
    unfolding omul_def using d
    by (intro ovf_not_NaN) (cases "odiv q (Fin a)"; simp add: inf_times_def)
  show ?thesis
    unfolding osub_def fsub_def using m
    by (intro ovf_not_NaN) (cases "omul (odiv q (Fin a)) (Fin 100)"; simp)
qed

lemma soc_sample_in_range:
  assumes "is_fin q" and "a \<noteq> 0"
  shows "\<exists>v. np_clip (osub (Fin s0) (omul (odiv q (Fin a)) (Fin 100))) 0 100 = Fin v
             \<and> 0 \<le> v \<and> v \<le> 100"
  by (rule np_clip_range[OF soc_sample_not_NaN[OF assms]])

subsection \<open>The series of a call with arguments of moderate size\<close>

lemma simulated_series_bounded:
  assumes I0: "profile_current p (Fin c) (omul (Fin h) (Fin 3600))
                 (linspace (Fin 0) (omul (Fin h) (Fin 3600)) 1000) randn sin_err = Inr I0"
    and h: "h \<noteq> 0" "\<bar>h\<bar> \<le> 10 ^ 90" and c: "\<bar>c\<bar> \<le> 10 ^ 90"
    and z: "\<forall>i. \<bar>randn i\<bar> \<le> 10 ^ 90"
  shows "\<forall>x\<in>set (linspace (Fin 0) (omul (Fin h) (Fin 3600)) 1000). bounded_fin (10 ^ 94) x"
    and "\<forall>y\<in>set (if noise then add_noise_to I0 (Fin c) randn off else I0).
           bounded_fin (10 ^ 181) y"
proof -
  let ?T = "h * 3600"
  note T = horizon_seconds[OF h(2)]
  have T0: "?T \<noteq> 0" using h(1) by simp
  have t: "\<forall>x\<in>set (linspace (Fin 0) (Fin ?T) 1000). bounded_fin \<bar>?T\<bar> x"
    by (rule linspace_bounded[OF T(2)])
  then show "\<forall>x\<in>set (linspace (Fin 0) (omul (Fin h) (Fin 3600)) 1000). bounded_fin (10 ^ 94) x"
    unfolding T(1) using T(2) bounded_fin_mono by blast
  from I0 have I0': "profile_current p (Fin c) (Fin ?T) (linspace (Fin 0) (Fin ?T) 1000)
                       randn sin_err = Inr I0"
    unfolding T(1) .
  have b: "\<forall>y\<in>set I0. bounded_fin (10 ^ 180) y"
    by (rule profile_current_bounded[OF I0' c z T0 T(2) t])
  show "\<forall>y\<in>set (if noise then add_noise_to I0 (Fin c) randn off else I0).
          bounded_fin (10 ^ 181) y"
  proof (cases noise)
    case True
    then show ?thesis using add_noise_to_bounded[OF b c z] by simp
  next
    case False
    have "10 ^ 180 \<le> (10::real) ^ 181" by simp
    with b bounded_fin_mono have "\<forall>y\<in>set I0. bounded_fin (10 ^ 181) y" by blast
    with False show ?thesis by simp
  qed
qed

section \<open>The claims\<close>

subsection \<open>All series have the length of the time grid\<close>

text \<open>
  Claim C4. Whenever the simulation returns a result, each of the seven returned series
  has exactly 1000 samples, the size of the time grid.
\<close>

theorem all_series_have_length_1000:
  assumes "snd (discharge_simulation self hours p cv noise randn sin_err) = Inr r"
  shows "length (time_hours r) = 1000 \<and> length (time_seconds r) = 1000
       \<and> length (current_A r) = 1000 \<and> length (SOC_percent r) = 1000
       \<and> length (voltage_V r) = 1000 \<and> length (power_W r) = 1000
       \<and> length (remaining_capacity_Ah r) = 1000"
proof -
  let ?t = "linspace (Fin 0) (omul hours (Fin 3600)) 1000"
  from discharge_simulation_Inr[OF assms] obtain I0 where
    I0: "profile_current p cv (omul hours (Fin 3600)) ?t randn sin_err = Inr I0" and
    r: "r = discharge_series self ?t
              (if noise then add_noise_to I0 cv randn (noise_offset p 1000) else I0)"
    by blast
  have len: "length (if noise then add_noise_to I0 cv randn (noise_offset p 1000) else I0)
             = length ?t"
    by (rule length_simulated_current[OF I0])
  have pos: "0 < length ?t" and n: "length ?t = 1000" by (simp_all add: length_linspace)
  from lengths_discharge_series[OF len pos, of self] show ?thesis
    unfolding r n by blast
qed

theorem all_series_have_length_1000_witness:
  "\<exists>r. snd (discharge_simulation (init 10 100 12) (Fin 3) ''constant'' (Fin 5) False
            zero_draws exact_sine) = Inr r
      \<and> length (time_hours r) = 1000 \<and> length (time_seconds r) = 1000
      \<and> length (current_A r) = 1000 \<and> length (SOC_percent r) = 1000
      \<and> length (voltage_V r) = 1000 \<and> length (power_W r) = 1000
      \<and> length (remaining_capacity_Ah r) = 1000"
  using all_series_have_length_1000[OF constant_call_result] constant_call_result by blast

subsection \<open>Unknown profile names\<close>

text \<open>
  Claim C5. A profile name outside \<open>constant\<close>, \<open>pulsed\<close>, \<open>ramp\<close>,
  \<open>random\<close> makes the call fail with the invalid-profile error, and no result is
  returned; a name among these four always gives a result.
\<close>

theorem invalid_profile_raises:
  "(p \<notin> {''constant'', ''pulsed'', ''ramp'', ''random''} \<longrightarrow>
      snd (discharge_simulation self hours p cv noise randn sin_err)
        = Inl (ValueError ''Invalid current profile.''))
   \<and> (p \<in> {''constant'', ''pulsed'', ''ramp'', ''random''} \<longrightarrow>
      (\<exists>r. snd (discharge_simulation self hours p cv noise randn sin_err) = Inr r))"
proof (intro conjI impI)
  assume "p \<notin> {''constant'', ''pulsed'', ''ramp'', ''random''}"
  from discharge_simulation_Inl[OF profile_current_invalid[OF this]]
  show "snd (discharge_simulation self hours p cv noise randn sin_err)
        = Inl (ValueError ''Invalid current profile.'')" by simp
next
  let ?t = "linspace (Fin 0) (omul hours (Fin 3600)) 1000"
  assume "p \<in> {''constant'', ''pulsed'', ''ramp'', ''random''}"
  then consider "p = ''constant''" | "p = ''pulsed''" | "p = ''ramp''" | "p = ''random''"
    by auto
  then have "\<exists>I0. profile_current p cv (omul hours (Fin 3600)) ?t randn sin_err = Inr I0"
  proof cases
    case 1 then show ?thesis by (simp add: profile_current_constant)
  next
    case 2 then show ?thesis by (simp add: profile_current_pulsed)
  next
    case 3 then show ?thesis by (simp add: profile_current_ramp)
  next
    case 4 then show ?thesis by (simp add: profile_current_random)
  qed
  then obtain I0 where
    "profile_current p cv (omul hours (Fin 3600)) ?t randn sin_err = Inr I0" ..
  from discharge_simulation_Inr_eq[OF this]
  show "\<exists>r. snd (discharge_simulation self hours p cv noise randn sin_err) = Inr r" by simp
qed

theorem invalid_profile_raises_witness:
  "''triangle'' \<notin> {''constant'', ''pulsed'', ''ramp'', ''random''}
   \<and> snd (discharge_simulation (init 10 100 12) (Fin 3) ''triangle'' (Fin 5) True
           zero_draws exact_sine)
       = Inl (ValueError ''Invalid current profile.'')
   \<and> ''ramp'' \<in> {''constant'', ''pulsed'', ''ramp'', ''random''}
   \<and> (\<exists>r. snd (discharge_simulation (init 10 100 12) (Fin 3) ''ramp'' (Fin 5) True
               zero_draws exact_sine) = Inr r)"
proof -
  have a: "''triangle'' \<notin> {''constant'', ''pulsed'', ''ramp'', ''random''}" by simp
  have b: "''ramp'' \<in> {''constant'', ''pulsed'', ''ramp'', ''random''}" by simp
  from invalid_profile_raises[of "''triangle''" "init 10 100 12" "Fin 3" "Fin 5" True
         zero_draws exact_sine] a
  have 1: "snd (discharge_simulation (init 10 100 12) (Fin 3) ''triangle'' (Fin 5) True
             zero_draws exact_sine)
           = Inl (ValueError ''Invalid current profile.'')" by blast
  from invalid_profile_raises[of "''ramp''" "init 10 100 12" "Fin 3" "Fin 5" True
         zero_draws exact_sine] b
  have 2: "\<exists>r. snd (discharge_simulation (init 10 100 12) (Fin 3) ''ramp'' (Fin 5) True
                  zero_draws exact_sine) = Inr r"
    by blast
  from a b 1 2 show ?thesis by blast
qed

subsection \<open>The object is not changed\<close>

text \<open>
  Claim C9. A call of \<open>discharge_simulation\<close> leaves the object as it was: every
  field has the value it had before the call, whatever the arguments, also when the call
  fails with an invalid profile.
\<close>

theorem discharge_simulation_leaves_object_unchanged:
  "fst (discharge_simulation self hours p cv noise randn sin_err) = self
   \<and> capacity_Ah (fst (discharge_simulation self hours p cv noise randn sin_err))
       = capacity_Ah self
   \<and> initial_SOC (fst (discharge_simulation self hours p cv noise randn sin_err))
       = initial_SOC self
   \<and> nominal_voltage (fst (discharge_simulation self hours p cv noise randn sin_err))
       = nominal_voltage self
   \<and> internal_resistance (fst (discharge_simulation self hours p cv noise randn sin_err))
       = internal_resistance self
   \<and> peukert_exponent (fst (discharge_simulation self hours p cv noise randn sin_err))
       = peukert_exponent self
   \<and> capacity_As (fst (discharge_simulation self hours p cv noise randn sin_err))
       = capacity_As self"
  by (simp add: discharge_simulation_fst)

subsection \<open>The effective capacity against its reference definition\<close>

text \<open>
  Claim C2. For a battery of positive capacity and every current \<open>I\<close>,
  \<open>peukert_capacity\<close> returns what the reference definition gives: \<open>capacity_As\<close>
  itself when \<open>I \<le> 0\<close>, otherwise \<open>capacity_As\<close> times the factor
  \<open>(I_ref / I) ^ (peukert_exponent - 1)\<close> clamped to \<open>[0.3, 2.0]\<close>, where
  \<open>I_ref = capacity_Ah / 20\<close>; and this value lies between \<open>0.3 * capacity_As\<close>
  and \<open>2.0 * capacity_As\<close>, as does the value returned for a current \<open>c\<close> that is
  NaN or infinite.
\<close>

theorem peukert_capacity_matches_reference:
  assumes "0 < cap"
  shows "peukert_capacity (init cap soc volt) (Fin I)
           = Fin (peukert_reference (init cap soc volt) I)
         \<and> 0.3 * capacity_As (init cap soc volt) \<le> peukert_reference (init cap soc volt) I
         \<and> peukert_reference (init cap soc volt) I \<le> 2.0 * capacity_As (init cap soc volt)
         \<and> (\<exists>v. peukert_capacity (init cap soc volt) c = Fin v
                \<and> 0.3 * capacity_As (init cap soc volt) \<le> v
                \<and> v \<le> 2.0 * capacity_As (init cap soc volt))"
proof -
  let ?b = "init cap soc volt"
  have ah: "0 < capacity_Ah ?b" and as: "0 \<le> capacity_As ?b"
    using assms by (simp_all add: init_def)
  note any = peukert_capacity_bounds[OF as, of c]
  have eq: "peukert_capacity ?b (Fin I) = Fin (peukert_reference ?b I)"
    by (rule peukert_capacity_refines[OF ah])
  from peukert_capacity_bounds[OF as, of "Fin I"] obtain v where
    v: "peukert_capacity ?b (Fin I) = Fin v"
       "0.3 * capacity_As ?b \<le> v" "v \<le> 2.0 * capacity_As ?b" by blast
  from v(1) eq have "v = peukert_reference ?b I" by simp
  with v(2,3) eq any show ?thesis by simp
qed

theorem peukert_capacity_matches_reference_witness:
  "(0::real) < 10
   \<and> peukert_capacity (init 10 100 12) (Fin 5) = Fin (peukert_reference (init 10 100 12) 5)
   \<and> 0.3 * capacity_As (init 10 100 12) \<le> peukert_reference (init 10 100 12) 5
   \<and> peukert_reference (init 10 100 12) 5 \<le> 2.0 * capacity_As (init 10 100 12)
   \<and> (\<exists>v. peukert_capacity (init 10 100 12) NaN = Fin v
          \<and> 0.3 * capacity_As (init 10 100 12) \<le> v
          \<and> v \<le> 2.0 * capacity_As (init 10 100 12))"
proof -
  have h: "(0::real) < 10" by simp
  from peukert_capacity_matches_reference[OF h, of 100 12 5 NaN] h show ?thesis by blast
qed

subsection \<open>The mean effective capacity is positive\<close>

text \<open>
  Claim C10. If \<open>capacity_Ah > 0\<close>, then \<open>peukert_capacity\<close> returns a
  strictly positive number for every current (also for a NaN or infinite one), and the mean
  effective capacity of every simulation call that returns a result is a strictly positive
  number, so that the division in the SOC formula never divides by zero.
\<close>

theorem effective_capacity_positive:
  assumes "0 < cap"
  shows "(\<forall>c. \<exists>v. peukert_capacity (init cap soc volt) c = Fin v \<and> 0 < v)
       \<and> (\<forall>hours p cv noise randn sin_err r.
             snd (discharge_simulation (init cap soc volt) hours p cv noise randn sin_err) = Inr r
             \<longrightarrow> (\<exists>a. effective_capacity_As r = Fin a \<and> 0 < a))"
proof (intro conjI allI impI)
  let ?b = "init cap soc volt"
  have as: "0 < capacity_As ?b" using assms by (simp add: init_def)
  fix c
  show "\<exists>v. peukert_capacity ?b c = Fin v \<and> 0 < v"
    by (rule peukert_capacity_pos[OF as])
next
  let ?b = "init cap soc volt"
  have as: "0 < capacity_As ?b" using assms by (simp add: init_def)
  fix hours p cv noise randn sin_err r
  assume h: "snd (discharge_simulation ?b hours p cv noise randn sin_err) = Inr r"
  let ?t = "linspace (Fin 0) (omul hours (Fin 3600)) 1000"
  from discharge_simulation_Inr[OF h] obtain I0 where
    I0: "profile_current p cv (omul hours (Fin 3600)) ?t randn sin_err = Inr I0" and
    r: "r = discharge_series ?b ?t
              (if noise then add_noise_to I0 cv randn (noise_offset p 1000) else I0)"
    by blast
  let ?I = "if noise then add_noise_to I0 cv randn (noise_offset p 1000) else I0"
  have "length ?I = 1000"
    using length_simulated_current[OF I0] by (simp add: length_linspace)
  then have ne: "?I \<noteq> []" by auto
  from avg_effective_capacity_pos[OF as ne]
  show "\<exists>a. effective_capacity_As r = Fin a \<and> 0 < a"
    unfolding r effective_capacity_As_discharge_series .
qed

theorem effective_capacity_positive_witness:
  "(0::real) < 10
   \<and> (\<exists>v. peukert_capacity (init 10 100 12) (Fin 5) = Fin v \<and> 0 < v)
   \<and> (\<exists>r. snd (discharge_simulation (init 10 100 12) (Fin 3) ''constant'' (Fin 5) False
               zero_draws exact_sine) = Inr r
          \<and> (\<exists>a. effective_capacity_As r = Fin a \<and> 0 < a))"
proof -
  have h: "(0::real) < 10" by simp
  note t = effective_capacity_positive[OF h, of 100 12]
  from t have 1: "\<exists>v. peukert_capacity (init 10 100 12) (Fin 5) = Fin v \<and> 0 < v" by blast
  from t constant_call_result[of "init 10 100 12" "Fin 3" "Fin 5" zero_draws exact_sine]
  have 2: "\<exists>r. snd (discharge_simulation (init 10 100 12) (Fin 3) ''constant'' (Fin 5) False
                  zero_draws exact_sine) = Inr r
          \<and> (\<exists>a. effective_capacity_As r = Fin a \<and> 0 < a)" by blast
  from h 1 2 show ?thesis by blast
qed

subsection \<open>Recomputing the state of charge from a result\<close>

lemma oadd_commute: "oadd a b = oadd b a"
  by (cases a; cases b) (simp_all add: oadd_def add.commute)

lemma nth_trapezoid_areas:
  "j < length (trapezoid_areas y x) \<Longrightarrow>
   trapezoid_areas y x ! j
     = odiv (omul (osub (x ! Suc j) (x ! j)) (oadd (y ! j) (y ! Suc j))) (Fin 2)"
proof (induction y x arbitrary: j rule: trapezoid_areas.induct)
  case (1 y0 y1 ys x0 x1 xs)
  show ?case
  proof (cases j)
    case 0
    then show ?thesis by (simp add: oadd_commute)
  next
    case (Suc i)
    with "1.prems" have "i < length (trapezoid_areas (y1 # ys) (x1 # xs))" by simp
    from "1.IH"[OF this] Suc show ?thesis by simp
  qed
qed simp_all

lemma trapezoid_areas_eq_map:
  "trapezoid_areas y x =
     map (\<lambda>j. odiv (omul (osub (x ! Suc j) (x ! j)) (oadd (y ! j) (y ! Suc j))) (Fin 2))
         [0..<length (trapezoid_areas y x)]"
  by (rule nth_equalityI) (simp_all add: nth_trapezoid_areas)

lemma nth_cumsum_from:
  "k < length xs \<Longrightarrow> cumsum_from acc xs ! k = foldl oadd acc (take (Suc k) xs)"
proof (induction xs arbitrary: acc k)
  case Nil
  then show ?case by simp
next
  case (Cons x xs)
  show ?case
  proof (cases k)
    case 0
    then show ?thesis by simp
  next
    case (Suc i)
    with Cons.prems have "i < length xs" by simp
    from Cons.IH[OF this, of "oadd acc x"] Suc show ?thesis by simp
  qed
qed

lemma nth_cumulative_trapezoid:
  assumes "k < length (cumulative_trapezoid y x)"
  shows "cumulative_trapezoid y x ! k = trapezoid_integral y x k"
proof (cases k)
  case 0
  then show ?thesis by (simp add: cumulative_trapezoid_def trapezoid_integral_def)
next
  case (Suc i)
  let ?n = "length (trapezoid_areas y x)"
  let ?area = "\<lambda>j. odiv (omul (osub (x ! Suc j) (x ! j)) (oadd (y ! j) (y ! Suc j))) (Fin 2)"
  from assms Suc have i: "i < ?n"
    by (simp add: cumulative_trapezoid_def np_cumsum_def length_cumsum_from)
  have "cumulative_trapezoid y x ! k = cumsum_from (Fin 0) (trapezoid_areas y x) ! i"
    using Suc by (simp add: cumulative_trapezoid_def np_cumsum_def)
  also have "\<dots> = foldl oadd (Fin 0) (take (Suc i) (trapezoid_areas y x))"
    by (rule nth_cumsum_from[OF i])
  also have "take (Suc i) (trapezoid_areas y x) = take (Suc i) (map ?area [0..<?n])"
    using trapezoid_areas_eq_map[of y x] by simp
  also have "\<dots> = map ?area [0..<Suc i]"
    using i by (simp add: take_map min_def del: upt_Suc)
  finally show ?thesis using Suc by (simp add: trapezoid_integral_def del: upt_Suc)
qed

text \<open>
  Claim C3. Whenever the simulation returns a result, recomputing the state of charge from
  the returned current series and the returned mean effective capacity (the trapezoid-rule
  integral of the current over the returned time grid from the first sample on, then
  \<open>initial_soc - (Q / effective_capacity_As) * 100\<close>, then the clamp to \<open>[0, 100]\<close>)
  gives exactly the returned \<open>SOC_percent\<close> series.
\<close>

theorem recomputed_SOC_reproduces_SOC_percent:
  assumes "snd (discharge_simulation self hours p cv noise randn sin_err) = Inr r"
  shows "recomputed_SOC self r = SOC_percent r"
proof -
  let ?t = "linspace (Fin 0) (omul hours (Fin 3600)) 1000"
  from discharge_simulation_Inr[OF assms] obtain I0 where
    I0: "profile_current p cv (omul hours (Fin 3600)) ?t randn sin_err = Inr I0" and
    r: "r = discharge_series self ?t
              (if noise then add_noise_to I0 cv randn (noise_offset p 1000) else I0)"
    by blast
  let ?I = "if noise then add_noise_to I0 cv randn (noise_offset p 1000) else I0"
  have len: "length ?I = length ?t" by (rule length_simulated_current[OF I0])
  have pos: "0 < length ?t" by (simp add: length_linspace)
  have cur: "current_A r = ?I" and ts: "time_seconds r = ?t"
    and avg: "effective_capacity_As r = np_mean (map (peukert_capacity self) ?I)"
    unfolding r
    by (rule current_A_discharge_series time_seconds_discharge_series
             effective_capacity_As_discharge_series)+
  have lq: "length (cumulative_trapezoid ?I ?t) = length ?I"
    using length_cumulative_trapezoid[OF len pos] len by simp
  have soc: "SOC_percent r =
      map (\<lambda>q. np_clip (osub (Fin (initial_SOC self))
                  (omul (odiv q (effective_capacity_As r)) (Fin 100))) 0 100)
          (cumulative_trapezoid ?I ?t)"
    unfolding avg unfolding r SOC_percent_discharge_series ..
  show ?thesis
  proof (rule nth_equalityI)
    show "length (recomputed_SOC self r) = length (SOC_percent r)"
      unfolding soc by (simp add: recomputed_SOC_def cur lq)
  next
    fix k assume "k < length (recomputed_SOC self r)"
    then have k: "k < length ?I" by (simp add: recomputed_SOC_def cur)
    then have kq: "k < length (cumulative_trapezoid ?I ?t)" using lq by simp
    have "SOC_percent r ! k =
          np_clip (osub (Fin (initial_SOC self))
                  (omul (odiv (cumulative_trapezoid ?I ?t ! k) (effective_capacity_As r))
                        (Fin 100))) 0 100"
      unfolding soc using kq by simp
    also have "cumulative_trapezoid ?I ?t ! k = trapezoid_integral ?I ?t k"
      by (rule nth_cumulative_trapezoid[OF kq])
    finally show "recomputed_SOC self r ! k = SOC_percent r ! k"
      using k by (simp add: recomputed_SOC_def cur ts)
  qed
qed

theorem recomputed_SOC_reproduces_SOC_percent_witness:
  "\<exists>r. snd (discharge_simulation (init 10 100 12) (Fin 3) ''constant'' (Fin 5) False
            zero_draws exact_sine) = Inr r
      \<and> recomputed_SOC (init 10 100 12) r = SOC_percent r"
  using recomputed_SOC_reproduces_SOC_percent[OF constant_call_result] constant_call_result
  by blast

subsection \<open>A time horizon that overflows\<close>

text \<open>
  \<open>time_hours * 3600\<close> overflows to infinity for a horizon of \<open>10 ^ 305\<close> hours. The
  time grid from 0 to infinity starts with NaN (zero times infinity) and is infinite from
  the second sample on, the first trapezoid has a width that is NaN, and so is every later
  sample of the integrated charge and of the state of charge.
\<close>

lemma overflowing_horizon: "omul (Fin (10 ^ 305)) (Fin 3600) = PInf"
  unfolding omul_def fmul.simps by (simp add: float64_overflow_def)

lemma linspace_to_infinity:
  "linspace (Fin 0) PInf 1000 ! 0 = NaN" "linspace (Fin 0) PInf 1000 ! 1 = PInf"
  by (simp_all add: linspace_def oadd_def osub_def omul_def odiv_def fsub_def inf_times_def)

lemma second_sample_NaN:
  assumes "length I = 1000"
  shows "SOC_percent (discharge_series self (linspace (Fin 0) PInf 1000) I) ! 1 = NaN"
proof -
  let ?t = "linspace (Fin 0) PInf 1000"
  have l: "length (cumulative_trapezoid I ?t) = 1000"
    using assms by (simp add: length_cumulative_trapezoid length_linspace)
  then have n: "cumulative_trapezoid I ?t ! 1 = trapezoid_integral I ?t 1"
    by (intro nth_cumulative_trapezoid) simp
  have w: "osub (?t ! Suc 0) (?t ! 0) = NaN"
    using linspace_to_infinity by (simp add: osub_def fsub_def)
  have q: "trapezoid_integral I ?t 1 = NaN"
    by (simp add: trapezoid_integral_def w) (simp add: oadd_def omul_def odiv_def)
  show ?thesis
    unfolding SOC_percent_discharge_series using l n q
    by (simp add: osub_def fsub_def omul_def odiv_def)
qed

subsection \<open>The state of charge stays in range\<close>

text \<open>
  Claim C1, as amended. Every sample of the returned \<open>SOC_percent\<close> series is a number in
  \<open>[0, 100]\<close>, for every profile kind, with or without noise, when \<open>time_hours\<close> and
  \<open>current_value\<close> are finite floats of magnitude at most \<open>10 ^ 90\<close> and so are the
  draws of the noise source: then no operation of the call overflows. The battery has a
  capacity other than zero and the time horizon is other than zero, as the data model
  (\<open>capacity_Ah > 0\<close>) and the input contract (\<open>time_hours > 0\<close>) of the specification
  require.
\<close>

theorem SOC_percent_within_0_100:
  assumes "cap \<noteq> 0" and "h \<noteq> 0" and "\<bar>h\<bar> \<le> 10 ^ 90" and "\<bar>c\<bar> \<le> 10 ^ 90"
    and "\<forall>i. \<bar>randn i\<bar> \<le> 10 ^ 90"
    and "snd (discharge_simulation (init cap soc volt) (Fin h) p (Fin c) noise randn sin_err)
         = Inr r"
  shows "\<forall>s\<in>set (SOC_percent r). \<exists>v. s = Fin v \<and> 0 \<le> v \<and> v \<le> 100"
proof -
  let ?b = "init cap soc volt" and ?t = "linspace (Fin 0) (omul (Fin h) (Fin 3600)) 1000"
  from discharge_simulation_Inr[OF assms(6)] obtain I0 where
    I0: "profile_current p (Fin c) (omul (Fin h) (Fin 3600)) ?t randn sin_err = Inr I0" and
    r: "r = discharge_series ?b ?t
              (if noise then add_noise_to I0 (Fin c) randn (noise_offset p 1000) else I0)"
    by blast
  let ?I = "if noise then add_noise_to I0 (Fin c) randn (noise_offset p 1000) else I0"
  have len: "length ?I = 1000"
    using length_simulated_current[OF I0] by (simp add: length_linspace)
  then have ne: "?I \<noteq> []" by auto
  have "capacity_As ?b \<noteq> 0" using assms(1) by (simp add: init_def)
  from avg_effective_capacity_nonzero[OF this ne] obtain a where
    a: "np_mean (map (peukert_capacity ?b) ?I) = Fin a" "a \<noteq> 0" by blast
  have lt: "length ?t = 1000" by (simp add: length_linspace)
  have q: "\<forall>q\<in>set (cumulative_trapezoid ?I ?t). is_fin q"
    by (rule cumulative_trapezoid_finite
          [OF simulated_series_bounded[OF I0 assms(2,3,4,5)] lt len])
  have soc: "SOC_percent r =
      map (\<lambda>q. np_clip (osub (Fin (initial_SOC ?b)) (omul (odiv q (Fin a)) (Fin 100))) 0 100)
          (cumulative_trapezoid ?I ?t)"
    unfolding r SOC_percent_discharge_series a(1) ..
  show ?thesis
  proof
    fix s assume "s \<in> set (SOC_percent r)"
    then obtain q where qs: "q \<in> set (cumulative_trapezoid ?I ?t)"
      and s: "s = np_clip (osub (Fin (initial_SOC ?b)) (omul (odiv q (Fin a)) (Fin 100))) 0 100"
      unfolding soc by auto
    from q qs have "is_fin q" by blast
    from soc_sample_in_range[OF this a(2)] s
    show "\<exists>v. s = Fin v \<and> 0 \<le> v \<and> v \<le> 100" by simp
  qed
qed

theorem SOC_percent_within_0_100_witness:
  "(10::real) \<noteq> 0 \<and> (3::real) \<noteq> 0 \<and> \<bar>3::real\<bar> \<le> 10 ^ 90 \<and> \<bar>5::real\<bar> \<le> 10 ^ 90
   \<and> (\<forall>i. \<bar>zero_draws i\<bar> \<le> 10 ^ 90)
   \<and> (\<exists>r. snd (discharge_simulation (init 10 100 12) (Fin 3) ''constant'' (Fin 5) False
                 zero_draws exact_sine) = Inr r
        \<and> SOC_percent r \<noteq> []
        \<and> (\<forall>s\<in>set (SOC_percent r). \<exists>v. s = Fin v \<and> 0 \<le> v \<and> v \<le> 100))"
proof -
  let ?r = "discharge_series (init 10 100 12) (linspace (Fin 0) (omul (Fin 3) (Fin 3600)) 1000)
              (map (\<lambda>x. Fin 5) (linspace (Fin 0) (omul (Fin 3) (Fin 3600)) 1000))"
  have h: "snd (discharge_simulation (init 10 100 12) (Fin 3) ''constant'' (Fin 5) False
             zero_draws exact_sine) = Inr ?r"
    by (rule constant_call_result)
  have c1: "(10::real) \<noteq> 0" and c2: "(3::real) \<noteq> 0" by simp_all
  have c3: "\<bar>3::real\<bar> \<le> 10 ^ 90" and c4: "\<bar>5::real\<bar> \<le> 10 ^ 90" by simp_all
  have c5: "\<forall>i. \<bar>zero_draws i\<bar> \<le> 10 ^ 90" by (simp add: zero_draws_def)
  from length_SOC_percent[OF h] have ne: "SOC_percent ?r \<noteq> []" by auto
  from SOC_percent_within_0_100[OF c1 c2 c3 c4 c5 h] h ne c1 c2 c3 c4 c5
  show ?thesis by blast
qed

text \<open>
  Claim C1 as stated, for any \<open>time_hours\<close> and any \<open>current_value\<close>, fails when the
  horizon overflows: with \<open>capacity_Ah = 10\<close>, \<open>initial_soc = 100\<close>, a constant current
  of 5 A and \<open>time_hours = 10 ^ 305\<close> the call returns a result whose second
  \<open>SOC_percent\<close> sample is NaN, which is not a number in \<open>[0, 100]\<close>.
\<close>

theorem SOC_percent_overflowing_horizon_counterexample:
  "\<not> isl (snd (discharge_simulation (init 10 100 12) (Fin (10 ^ 305)) ''constant'' (Fin 5)
               False zero_draws exact_sine))
   \<and> 1 < length (SOC_percent (projr (snd (discharge_simulation (init 10 100 12)
           (Fin (10 ^ 305)) ''constant'' (Fin 5) False zero_draws exact_sine))))
   \<and> SOC_percent (projr (snd (discharge_simulation (init 10 100 12) (Fin (10 ^ 305))
        ''constant'' (Fin 5) False zero_draws exact_sine))) ! 1 = NaN"
proof -
  let ?t = "linspace (Fin 0) PInf 1000"
  let ?r = "discharge_series (init 10 100 12) ?t (map (\<lambda>x. Fin 5) ?t)"
  have c: "snd (discharge_simulation (init 10 100 12) (Fin (10 ^ 305)) ''constant'' (Fin 5)
             False zero_draws exact_sine) = Inr ?r"
    unfolding constant_call_result overflowing_horizon ..
  have l: "length (SOC_percent ?r) = 1000"
    using length_SOC_percent[OF c] .
  have "length (map (\<lambda>x. Fin 5) ?t) = 1000" by (simp add: length_linspace)
  then have s: "SOC_percent ?r ! 1 = NaN" by (rule second_sample_NaN)
  show ?thesis unfolding c using l s by simp
qed

subsection \<open>A zero current discharges nothing\<close>

lemma omul_zero:
  assumes "is_fin w"
  shows "omul (Fin 0) w = Fin 0"
proof -
  from assms obtain b where "w = Fin b" by (cases w) simp_all
  then show ?thesis using omul_Fin[of 0 b] safe_magnitude_pos by simp
qed

lemma omul_zero_right:
  assumes "is_fin w"
  shows "omul w (Fin 0) = Fin 0"
proof -
  from assms obtain b where "w = Fin b" by (cases w) simp_all
  then show ?thesis using omul_Fin[of b 0] safe_magnitude_pos by simp
qed

lemma oadd_zero: "oadd (Fin 0) (Fin 0) = Fin 0"
  using oadd_Fin[of 0 0] safe_magnitude_pos by simp

lemma odiv_zero: "a \<noteq> 0 \<Longrightarrow> odiv (Fin 0) (Fin a) = Fin 0"
  using odiv_Fin[of a 0] safe_magnitude_pos by simp

lemma np_clip_between_zero: "np_clip_between (Fin 0) (Fin 0) (Fin 0) = Fin 0"
  by (simp add: np_clip_between_def)

lemma zero_profile_current:
  assumes I: "profile_current p (Fin 0) (Fin T) t randn sin_err = Inr I"
    and z: "\<forall>i. \<bar>randn i\<bar> \<le> 10 ^ 90"
    and T: "T \<noteq> 0" "\<bar>T\<bar> \<le> 10 ^ 94" and t: "\<forall>x\<in>set t. bounded_fin \<bar>T\<bar> x"
  shows "\<forall>v\<in>set I. v = Fin 0"
proof -
  have t94: "\<forall>x\<in>set t. bounded_fin (10 ^ 94) x"
    using t T(2) bounded_fin_mono by blast
  have pulsed: "omul (Fin 0) (oadd (Fin 0.5) (omul (Fin 0.5)
      (np_sign (np_sin sin_err (odiv (omul (Fin (2 * pi)) x) (Fin 3600)))))) = Fin 0"
    if "bounded_fin (10 ^ 94) x" for x
    by (rule omul_zero[OF bounded_fin_is_fin[OF pulsed_factor_bounded[OF that]]])
  have ramp: "omul (Fin 0) (oadd (Fin 0.5) (odiv (omul (Fin 0.5) x) (Fin T))) = Fin 0"
    if "bounded_fin \<bar>T\<bar> x" for x
    by (rule omul_zero[OF bounded_fin_is_fin[OF ramp_factor_bounded[OF T that]]])
  have f: "omul (Fin 0) (oadd (Fin 0.7) (omul (Fin 0.6) (Fin (randn i)))) = Fin 0" for i
    by (rule omul_zero[OF bounded_fin_is_fin[OF random_factor_bounded]]) (use z in simp)
  have lo: "omul (Fin 0.1) (Fin 0) = Fin 0" and hi: "omul (Fin 2) (Fin 0) = Fin 0"
    by (simp_all add: omul_zero_right)
  have random: "np_clip_between (omul (Fin 0) (oadd (Fin 0.7) (omul (Fin 0.6) (Fin (randn i)))))
                  (omul (Fin 0.1) (Fin 0)) (omul (Fin 2) (Fin 0)) = Fin 0" for i
    unfolding f lo hi by (rule np_clip_between_zero)
  from profile_current_cases[OF I]
  consider "p = ''constant''" | "p = ''pulsed''" | "p = ''ramp''" | "p = ''random''" by auto
  then show ?thesis
  proof cases
    case 1
    with I have "I = map (\<lambda>x. Fin 0) t" by (simp add: profile_current_constant)
    then show ?thesis by auto
  next
    case 2
    with I have "I = map (\<lambda>x. omul (Fin 0) (oadd (Fin 0.5) (omul (Fin 0.5)
        (np_sign (np_sin sin_err (odiv (omul (Fin (2 * pi)) x) (Fin 3600))))))) t"
      by (simp add: profile_current_pulsed)
    with t94 pulsed show ?thesis by auto
  next
    case 3
    with I have "I = map (\<lambda>x. omul (Fin 0)
        (oadd (Fin 0.5) (odiv (omul (Fin 0.5) x) (Fin T)))) t"
      by (simp add: profile_current_ramp)
    with t ramp show ?thesis by auto
  next
    case 4
    with I have "I = map (\<lambda>i. np_clip_between
        (omul (Fin 0) (oadd (Fin 0.7) (omul (Fin 0.6) (Fin (randn i)))))
        (omul (Fin 0.1) (Fin 0)) (omul (Fin 2) (Fin 0))) [0..<length t]"
      by (simp add: profile_current_random)
    with random show ?thesis by auto
  qed
qed

lemma zero_trapezoid_area:
  assumes "bounded_fin (10 ^ 94) x0" and "bounded_fin (10 ^ 94) x1"
  shows "odiv (omul (osub x1 x0) (oadd (Fin 0) (Fin 0))) (Fin 2) = Fin 0"
proof -
  have "bounded_fin (10 ^ 94 + 10 ^ 94) (osub x1 x0)"
    by (rule osub_bounded[OF assms(2,1)]) (simp add: safe_magnitude_def)
  then have "is_fin (osub x1 x0)" by (rule bounded_fin_is_fin)
  then show ?thesis by (simp add: oadd_zero omul_zero_right odiv_zero)
qed

lemma zero_trapezoid_areas:
  "\<forall>x\<in>set t. bounded_fin (10 ^ 94) x \<Longrightarrow> \<forall>v\<in>set I. v = Fin 0 \<Longrightarrow>
   \<forall>v\<in>set (trapezoid_areas I t). v = Fin 0"
proof (induction I t rule: trapezoid_areas.induct)
  case (1 y0 y1 ys x0 x1 xs)
  from 1(3) have y: "y0 = Fin 0" "y1 = Fin 0" by simp_all
  have "odiv (omul (osub x1 x0) (oadd (Fin 0) (Fin 0))) (Fin 2) = Fin 0"
    using 1(2) by (intro zero_trapezoid_area) simp_all
  moreover have "\<forall>v\<in>set (trapezoid_areas (y1 # ys) (x1 # xs)). v = Fin 0"
    using 1(2,3) by (intro 1(1)) simp_all
  ultimately show ?case using y by simp
qed simp_all

lemma zero_cumsum_from:
  "\<forall>v\<in>set xs. v = Fin 0 \<Longrightarrow> \<forall>v\<in>set (cumsum_from (Fin 0) xs). v = Fin 0"
proof (induction xs)
  case Nil
  show ?case by simp
next
  case (Cons x xs)
  from Cons.prems have x: "x = Fin 0" and r: "\<forall>v\<in>set xs. v = Fin 0" by simp_all
  from Cons.IH[OF r] x show ?case by (simp add: oadd_zero)
qed

lemma zero_cumulative_trapezoid:
  assumes "\<forall>x\<in>set t. bounded_fin (10 ^ 94) x" and "\<forall>v\<in>set I. v = Fin 0"
  shows "\<forall>v\<in>set (cumulative_trapezoid I t). v = Fin 0"
  using zero_cumsum_from[OF zero_trapezoid_areas[OF assms]]
  by (simp add: cumulative_trapezoid_def np_cumsum_def)

lemma zero_charge_sample:
  assumes "a \<noteq> 0" and "0 \<le> s0" and "s0 \<le> 100"
  shows "np_clip (osub (Fin s0) (omul (odiv (Fin 0) (Fin a)) (Fin 100))) 0 100 = Fin s0"
proof -
  have "\<bar>s0 - 0\<bar> \<le> safe_magnitude" using assms(2,3) by (simp add: safe_magnitude_def)
  then have "osub (Fin s0) (Fin 0) = Fin (s0 - 0)" by (rule osub_Fin)
  then show ?thesis
    using assms by (simp add: odiv_zero omul_zero)
qed

text \<open>
  Claim C6, as amended. With \<open>current_value = 0\<close> and no noise, for every supported profile
  kind and an \<open>initial_soc\<close> in \<open>[0, 100]\<close>, every sample of the returned
  \<open>SOC_percent\<close> series equals \<open>initial_soc\<close>, when \<open>time_hours\<close> is a finite float of
  magnitude at most \<open>10 ^ 90\<close> and so are the draws of the random source (the
  \<open>random\<close> profile draws also without noise): then no operation of the call overflows.
  The battery has a capacity other than zero and the time horizon is other than zero, as the
  data model and the input contract of the specification require.
\<close>

theorem zero_current_keeps_SOC_constant:
  assumes "cap \<noteq> 0" and "h \<noteq> 0" and "\<bar>h\<bar> \<le> 10 ^ 90" and "0 \<le> soc" and "soc \<le> 100"
    and "\<forall>i. \<bar>randn i\<bar> \<le> 10 ^ 90"
    and "snd (discharge_simulation (init cap soc volt) (Fin h) p (Fin 0) False randn sin_err)
         = Inr r"
  shows "\<forall>s\<in>set (SOC_percent r). s = Fin soc"
proof -
  let ?T = "h * 3600"
  let ?b = "init cap soc volt" and ?t = "linspace (Fin 0) (Fin ?T) 1000"
  note T = horizon_seconds[OF assms(3)]
  have T0: "?T \<noteq> 0" using assms(2) by simp
  from discharge_simulation_Inr[OF assms(7)] obtain I0 where
    I0: "profile_current p (Fin 0) (Fin ?T) ?t randn sin_err = Inr I0" and
    r: "r = discharge_series ?b ?t I0"
    unfolding T(1) by auto
  have "length I0 = 1000"
    using length_profile_current[OF I0] by (simp add: length_linspace)
  then have ne: "I0 \<noteq> []" by auto
  have t: "\<forall>x\<in>set ?t. bounded_fin \<bar>?T\<bar> x"
    by (rule linspace_bounded[OF T(2)])
  then have t94: "\<forall>x\<in>set ?t. bounded_fin (10 ^ 94) x"
    using T(2) bounded_fin_mono by blast
  have z: "\<forall>v\<in>set I0. v = Fin 0"
    by (rule zero_profile_current[OF I0 assms(6) T0 T(2) t])
  have "capacity_As ?b \<noteq> 0" using assms(1) by (simp add: init_def)
  from avg_effective_capacity_nonzero[OF this ne] obtain a where
    a: "np_mean (map (peukert_capacity ?b) I0) = Fin a" "a \<noteq> 0" by blast
  have q: "\<forall>v\<in>set (cumulative_trapezoid I0 ?t). v = Fin 0"
    by (rule zero_cumulative_trapezoid[OF t94 z])
  have soc: "SOC_percent r =
      map (\<lambda>q. np_clip (osub (Fin (initial_SOC ?b)) (omul (odiv q (Fin a)) (Fin 100))) 0 100)
          (cumulative_trapezoid I0 ?t)"
    unfolding r SOC_percent_discharge_series a(1) ..
  have i: "initial_SOC ?b = soc" by (simp add: init_def)
  show ?thesis
  proof
    fix s assume "s \<in> set (SOC_percent r)"
    then obtain v where "v \<in> set (cumulative_trapezoid I0 ?t)"
      and s: "s = np_clip (osub (Fin soc) (omul (odiv v (Fin a)) (Fin 100))) 0 100"
      unfolding soc i by auto
    with q have "v = Fin 0" by blast
    with s zero_charge_sample[OF a(2) assms(4,5)] show "s = Fin soc" by simp
  qed
qed

theorem zero_current_keeps_SOC_constant_witness:
  "(10::real) \<noteq> 0 \<and> (3::real) \<noteq> 0 \<and> \<bar>3::real\<bar> \<le> 10 ^ 90
   \<and> (0::real) \<le> 80 \<and> (80::real) \<le> 100 \<and> (\<forall>i. \<bar>zero_draws i\<bar> \<le> 10 ^ 90)
   \<and> (\<exists>r. snd (discharge_simulation (init 10 80 12) (Fin 3) ''constant'' (Fin 0) False
                 zero_draws exact_sine) = Inr r
          \<and> SOC_percent r \<noteq> []
          \<and> (\<forall>s\<in>set (SOC_percent r). s = Fin 80))"
proof -
  let ?r = "discharge_series (init 10 80 12) (linspace (Fin 0) (omul (Fin 3) (Fin 3600)) 1000)
              (map (\<lambda>x. Fin 0) (linspace (Fin 0) (omul (Fin 3) (Fin 3600)) 1000))"
  have h: "snd (discharge_simulation (init 10 80 12) (Fin 3) ''constant'' (Fin 0) False
             zero_draws exact_sine) = Inr ?r"
    by (rule constant_call_result)
  have c1: "(10::real) \<noteq> 0" and c2: "(3::real) \<noteq> 0" and c3: "\<bar>3::real\<bar> \<le> 10 ^ 90"
    and c4: "(0::real) \<le> 80" and c5: "(80::real) \<le> 100" by simp_all
  have c6: "\<forall>i. \<bar>zero_draws i\<bar> \<le> 10 ^ 90" by (simp add: zero_draws_def)
  from length_SOC_percent[OF h] have ne: "SOC_percent ?r \<noteq> []" by auto
  from zero_current_keeps_SOC_constant[OF c1 c2 c3 c4 c5 c6 h] h ne c1 c2 c3 c4 c5 c6
  show ?thesis by blast
qed

text \<open>
  Claim C6 as stated, for every call with a zero current and no noise, fails when the
  horizon overflows: with \<open>capacity_Ah = 10\<close>, \<open>initial_soc = 80\<close>, the \<open>constant\<close>
  profile and \<open>time_hours = 10 ^ 305\<close> the second \<open>SOC_percent\<close> sample is NaN, not 80.
\<close>

theorem zero_current_overflowing_horizon_counterexample:
  "(0::real) \<le> 80 \<and> (80::real) \<le> 100
   \<and> \<not> isl (snd (discharge_simulation (init 10 80 12) (Fin (10 ^ 305)) ''constant'' (Fin 0)
               False zero_draws exact_sine))
   \<and> 1 < length (SOC_percent (projr (snd (discharge_simulation (init 10 80 12)
           (Fin (10 ^ 305)) ''constant'' (Fin 0) False zero_draws exact_sine))))
   \<and> SOC_percent (projr (snd (discharge_simulation (init 10 80 12) (Fin (10 ^ 305))
        ''constant'' (Fin 0) False zero_draws exact_sine))) ! 1 \<noteq> Fin 80"
proof -
  let ?t = "linspace (Fin 0) PInf 1000"
  let ?r = "discharge_series (init 10 80 12) ?t (map (\<lambda>x. Fin 0) ?t)"
  have c: "snd (discharge_simulation (init 10 80 12) (Fin (10 ^ 305)) ''constant'' (Fin 0)
             False zero_draws exact_sine) = Inr ?r"
    unfolding constant_call_result overflowing_horizon ..
  have l: "length (SOC_percent ?r) = 1000"
    using length_SOC_percent[OF c] .
  have "length (map (\<lambda>x. Fin 0) ?t) = 1000" by (simp add: length_linspace)
  then have s: "SOC_percent ?r ! 1 = NaN" by (rule second_sample_NaN)
  show ?thesis unfolding c using l s by simp
qed

subsection \<open>A constant current that is not negative never raises the state of charge\<close>



















text \<open>Operations on small values, for calls on concrete inputs.\<close>

lemma oadd_small: "\<bar>a + b\<bar> \<le> 10 ^ 100 \<Longrightarrow> oadd (Fin a) (Fin b) = Fin (a + b)"
  by (intro oadd_Fin small_le_safe)


lemma omul_small: "\<bar>a * b\<bar> \<le> 10 ^ 100 \<Longrightarrow> omul (Fin a) (Fin b) = Fin (a * b)"
  by (intro omul_Fin small_le_safe)




subsection \<open>The pulsed profile\<close>

lemma pulsed_call_projr:
  "projr (snd (discharge_simulation self hours ''pulsed'' cv False randn sin_err)) =
     discharge_series self (linspace (Fin 0) (omul hours (Fin 3600)) 1000)
       (map (\<lambda>x. omul cv (oadd (Fin 0.5) (omul (Fin 0.5)
                    (np_sign (np_sin sin_err (odiv (omul (Fin (2 * pi)) x) (Fin 3600)))))))
            (linspace (Fin 0) (omul hours (Fin 3600)) 1000))"
  by (simp add: discharge_simulation_Inr_eq[OF profile_current_pulsed])

lemma pulse_at_zero:
  assumes "\<bar>c\<bar> \<le> 10 ^ 90"
  shows "omul (Fin c) (oadd (Fin 0.5) (omul (Fin 0.5)
           (np_sign (np_sin sin_err (odiv (omul (Fin (2 * pi)) (Fin 0)) (Fin 3600))))))
         = Fin (c / 2)"
proof -
  have a: "odiv (omul (Fin (2 * pi)) (Fin 0)) (Fin 3600) = Fin 0"
    by (simp add: omul_zero_right odiv_zero)
  have s: "np_sign (np_sin sin_err (Fin 0)) = Fin 0" by simp
  have h: "oadd (Fin 0.5) (omul (Fin 0.5) (Fin 0)) = Fin 0.5"
    using oadd_small[of "0.5" 0] by (simp add: omul_zero_right)
  have "\<bar>c * 0.5\<bar> \<le> 10 ^ 100"
  proof -
    have "\<bar>c * 0.5\<bar> \<le> \<bar>c\<bar>" by simp
    also have "\<dots> \<le> 10 ^ 90" by (rule assms)
    also have "\<dots> \<le> (10::real) ^ 100" by simp
    finally show ?thesis .
  qed
  then have "omul (Fin c) (Fin 0.5) = Fin (c * 0.5)" by (rule omul_small)
  then show ?thesis unfolding a s h by simp
qed

text \<open>
  Claim C8. The claim asks that every sample of the \<open>pulsed\<close> current series be either 0
  or \<open>current_value\<close>. The first sample of every pulsed call is neither: its time is 0,
  the sine of 0 is 0, \<open>np.sign(0)\<close> is 0 and the sample is half of \<open>current_value\<close>,
  for every finite horizon and current of magnitude at most \<open>10 ^ 90\<close> and whatever the
  rounding error of the float64 sine at the other samples.
\<close>

theorem pulsed_first_sample_is_half_current:
  assumes "\<bar>h\<bar> \<le> 10 ^ 90" and "\<bar>c\<bar> \<le> 10 ^ 90"
  shows "current_A (projr (snd (discharge_simulation self (Fin h) ''pulsed'' (Fin c) False
           randn sin_err))) ! 0 = Fin (c / 2)"
proof -
  let ?T = "h * 3600"
  let ?t = "linspace (Fin 0) (Fin ?T) 1000"
  let ?pulse = "\<lambda>x. omul (Fin c) (oadd (Fin 0.5) (omul (Fin 0.5)
                  (np_sign (np_sin sin_err (odiv (omul (Fin (2 * pi)) x) (Fin 3600))))))"
  note T = horizon_seconds[OF assms(1)]
  have p: "current_A (projr (snd (discharge_simulation self (Fin h) ''pulsed'' (Fin c) False
             randn sin_err))) = map ?pulse ?t"
    unfolding pulsed_call_projr T(1) by (rule current_A_discharge_series)
  have t0: "?t ! 0 = Fin 0" unfolding linspace_Fin[OF T(2)] by simp
  have l: "0 < length ?t" by (simp add: length_linspace)
  have "map ?pulse ?t ! 0 = ?pulse (?t ! 0)" by (rule nth_map[OF l])
  also have "\<dots> = Fin (c / 2)" unfolding t0 by (rule pulse_at_zero[OF assms(2)])
  finally show ?thesis unfolding p .
qed

theorem pulsed_first_sample_is_half_current_witness:
  "\<bar>4::real\<bar> \<le> 10 ^ 90 \<and> \<bar>8::real\<bar> \<le> 10 ^ 90
   \<and> current_A (projr (snd (discharge_simulation (init 10 100 12) (Fin 4) ''pulsed'' (Fin 8)
        False zero_draws exact_sine))) ! 0 = Fin 4
   \<and> current_A (projr (snd (discharge_simulation (init 10 100 12) (Fin 4) ''pulsed'' (Fin 8)
        False zero_draws exact_sine))) ! 0 \<noteq> Fin 0
   \<and> current_A (projr (snd (discharge_simulation (init 10 100 12) (Fin 4) ''pulsed'' (Fin 8)
        False zero_draws exact_sine))) ! 0 \<noteq> Fin 8"
proof -
  have c1: "\<bar>4::real\<bar> \<le> 10 ^ 90" and c2: "\<bar>8::real\<bar> \<le> 10 ^ 90" by simp_all
  from pulsed_first_sample_is_half_current[OF c1 c2, of "init 10 100 12" zero_draws exact_sine]
  have "current_A (projr (snd (discharge_simulation (init 10 100 12) (Fin 4) ''pulsed'' (Fin 8)
          False zero_draws exact_sine))) ! 0 = Fin 4"
    by simp
  with c1 c2 show ?thesis by simp
qed

end
